theory Spec2Isabelle
  imports Main "HOL-Library.Word"
begin

unbundle bit_operations_syntax

section \<open>Bytes and byte order\<close>

text \<open>
  The library reads file structures into packed C structs and converts single fields
  with the macros of \<^verbatim>\<open>byteswap.h\<close>. The host byte order is a compile-time constant
  of the build (\<^verbatim>\<open>SYS_BYTEORDER\<close>); the model carries it as the boolean \<open>le\<close>
  (\<open>True\<close> on a little-endian host), so every statement covers both builds.
\<close>

type_synonym u8 = "8 word"
type_synonym u16 = "16 word"
type_synonym u32 = "32 word"
type_synonym u64 = "64 word"

text \<open>
  Modelled from the spec: the byte-swapping macros of \<^verbatim>\<open>byteswap.h\<close> are not part of
  the sources at hand. The specification only says that values are byte-swapped between
  file order and host order; the definitions below are the usual reversal of the bytes
  of a 16, 32 and 64 bit value. \<open>be_u32 b0 b1 b2 b3\<close> is the 32-bit value whose
  most significant byte is \<open>b0\<close>.
\<close>

definition bswap16 :: "u16 \<Rightarrow> u16" where
  "bswap16 x = push_bit 8 x OR drop_bit 8 x"

definition be_u32 :: "u8 \<Rightarrow> u8 \<Rightarrow> u8 \<Rightarrow> u8 \<Rightarrow> u32" where
  "be_u32 b0 b1 b2 b3 =
     push_bit 24 (ucast b0) OR push_bit 16 (ucast b1) OR push_bit 8 (ucast b2) OR ucast b3"

definition bswap32 :: "u32 \<Rightarrow> u32" where
  "bswap32 x =
     be_u32 (ucast x) (ucast (drop_bit 8 x)) (ucast (drop_bit 16 x)) (ucast (drop_bit 24 x))"

definition bswap64 :: "u64 \<Rightarrow> u64" where
  "bswap64 x =
     push_bit 56 x OR push_bit 40 (x AND 0xFF00) OR push_bit 24 (x AND 0xFF0000)
       OR push_bit 8 (x AND 0xFF000000) OR (drop_bit 8 x AND 0xFF000000)
       OR (drop_bit 24 x AND 0xFF0000) OR (drop_bit 40 x AND 0xFF00) OR drop_bit 56 x"

text \<open>
  \<^verbatim>\<open>cpu_to_beNN\<close> and \<^verbatim>\<open>beNN_to_cpu\<close> are the same operation: a swap on a
  little-endian host, the identity on a big-endian one.
\<close>

definition cpu_to_be16 :: "bool \<Rightarrow> u16 \<Rightarrow> u16" where
  "cpu_to_be16 le x = (if le then bswap16 x else x)"

definition cpu_to_be32 :: "bool \<Rightarrow> u32 \<Rightarrow> u32" where
  "cpu_to_be32 le x = (if le then bswap32 x else x)"

definition cpu_to_be64 :: "bool \<Rightarrow> u64 \<Rightarrow> u64" where
  "cpu_to_be64 le x = (if le then bswap64 x else x)"

definition be16_to_cpu :: "bool \<Rightarrow> u16 \<Rightarrow> u16" where
  "be16_to_cpu le x = (if le then bswap16 x else x)"

definition be32_to_cpu :: "bool \<Rightarrow> u32 \<Rightarrow> u32" where
  "be32_to_cpu le x = (if le then bswap32 x else x)"

definition be64_to_cpu :: "bool \<Rightarrow> u64 \<Rightarrow> u64" where
  "be64_to_cpu le x = (if le then bswap64 x else x)"

section \<open>The XDBF resource container: entry table\<close>

text \<open>
  \<^verbatim>\<open>XDBF_Entry\<close> is declared in \<^verbatim>\<open>xdbf_structs.h\<close>; the specification lists its
  fields as \<open>{namespace_id: u16, resource_id: u64, offset: u32, length: u32}\<close>.
  The entry table is kept exactly as read from the file: each field holds the file's
  bytes as the host loads them, without any swap.
\<close>

record XDBF_Entry =
  namespace_id :: u16
  resource_id :: u64
  offset_e :: u32
  length_e :: u32

text \<open>
  \<^verbatim>\<open>std::find_if\<close> over a vector: the position of the first element satisfying the
  predicate, and the end position (the length of the vector) when there is none.
\<close>

fun find_if :: "('a \<Rightarrow> bool) \<Rightarrow> 'a list \<Rightarrow> nat" where
  "find_if p [] = 0"
| "find_if p (x # xs) = (if p x then 0 else Suc (find_if p xs))"

text \<open>
  \<^verbatim>\<open>Xbox360_XDBF_Private::findResource\<close>. The C++ function returns a pointer to the
  entry inside the table or \<^verbatim>\<open>nullptr\<close>; the model returns the entry it points to.
  The function is \<^verbatim>\<open>const\<close>: the table is only an argument and is never written.
\<close>

definition findResource :: "bool \<Rightarrow> XDBF_Entry list \<Rightarrow> u16 \<Rightarrow> u64 \<Rightarrow> XDBF_Entry option" where
  "findResource le entryTable ns_id res_id =
     (if entryTable = [] then None
      else
        let ns_q = (if le then cpu_to_be16 le ns_id else ns_id);
            res_q = (if le then cpu_to_be64 le res_id else res_id);
            iter = find_if (\<lambda>p. namespace_id p = ns_q \<and> resource_id p = res_q) entryTable
        in if iter \<noteq> length entryTable then Some (entryTable ! iter) else None)"

text \<open>The composite key of a query after the swap the lookup applies to it.\<close>

definition key_matches :: "bool \<Rightarrow> u16 \<Rightarrow> u64 \<Rightarrow> XDBF_Entry \<Rightarrow> bool" where
  "key_matches le ns_id res_id p \<longleftrightarrow>
     namespace_id p = cpu_to_be16 le ns_id \<and> resource_id p = cpu_to_be64 le res_id"

text \<open>
  A small entry table for concrete checks (little-endian host, so the stored keys are the
  byte-swapped ids): the first two entries agree with the query \<open>(1, 0x8000)\<close> in one
  field only, the last two are duplicates of the full key.
\<close>

definition demo_table :: "XDBF_Entry list" where
  "demo_table =
     [\<lparr>namespace_id = 0x0100, resource_id = 0x0180000000000000, offset_e = 0, length_e = 0\<rparr>,
      \<lparr>namespace_id = 0x0200, resource_id = 0x0080000000000000, offset_e = 0, length_e = 0\<rparr>,
      \<lparr>namespace_id = 0x0100, resource_id = 0x0080000000000000, offset_e = 1, length_e = 0\<rparr>,
      \<lparr>namespace_id = 0x0100, resource_id = 0x0080000000000000, offset_e = 2, length_e = 0\<rparr>]"

section \<open>Format detection: the RomDataFactory dispatcher\<close>

subsection \<open>Files, handlers, descriptors\<close>

text \<open>
  \<^verbatim>\<open>IRpFile\<close> is the abstract file interface (\<^verbatim>\<open>IRpFile.hpp\<close>). The dispatcher uses
  \<^verbatim>\<open>size()\<close>, \<^verbatim>\<open>filename()\<close>, \<^verbatim>\<open>rewind()\<close>, \<^verbatim>\<open>seek()\<close>, \<^verbatim>\<open>read()\<close> and
  \<^verbatim>\<open>seekAndRead()\<close>. A file is modelled by what these calls answer: its size (negative
  on error), its name, whether a seek to a position succeeds, and the bytes a read
  delivers at a position. \<open>f_pos\<close> is the position the file has when it is handed over.
\<close>

record IRpFile =
  f_size :: int
  f_filename :: string
  f_pos :: int
  f_seek :: "int \<Rightarrow> bool"
  f_read :: "int \<Rightarrow> nat \<Rightarrow> u8 list"

text \<open>\<^verbatim>\<open>read(ptr, size)\<close> at position \<open>pos\<close>: never more than \<open>size\<close> bytes.\<close>

definition file_read :: "IRpFile \<Rightarrow> int \<Rightarrow> nat \<Rightarrow> u8 list" where
  "file_read file pos n = take n (f_read file pos n)"

text \<open>
  Modelled from the spec: \<^verbatim>\<open>IRpFile::seekAndRead\<close> is only declared in the sources at
  hand. Its documentation reads: seek to the specified address, then read data; returns
  the number of bytes read on success, 0 on seek or read error.
\<close>

definition seekAndRead :: "IRpFile \<Rightarrow> int \<Rightarrow> nat \<Rightarrow> u8 list" where
  "seekAndRead file pos n = (if f_seek file pos then file_read file pos n else [])"

text \<open>
  A handler (\<^verbatim>\<open>RomData\<close> subclass instance). Only its validity matters to the
  dispatcher; the class name identifies it in examples.
\<close>

record RomData =
  isValid :: bool
  className :: string

text \<open>\<^verbatim>\<open>RomData::DetectInfo\<close>: the buffered header window, the extension, the file size.\<close>

record DetectInfo =
  header_addr :: u32
  header_size :: u32
  header_pData :: "u8 list"
  ext :: "string option"
  szFile :: int

text \<open>
  \<^verbatim>\<open>RomDataFactoryPrivate::RomDataFns\<close>, one catalog descriptor. In the magic table
  \<open>size_f\<close> holds the 32-bit magic number and \<open>address\<close> its offset in the header.
  The two function pointers for extensions and MIME types only serve as the table's end
  marker in the loops; tables are lists here.
\<close>

record RomDataFns =
  isRomSupported :: "DetectInfo \<Rightarrow> int"
  newRomData :: "IRpFile \<Rightarrow> RomData"
  attrs_f :: u32
  address :: u32
  size_f :: u32

record Catalog =
  romDataFns_magic :: "RomDataFns list"
  romDataFns_header :: "RomDataFns list"
  romDataFns_footer :: "RomDataFns list"

text \<open>
  Collaborators outside the dispatcher: \<^verbatim>\<open>FileSystem::file_ext\<close>,
  \<^verbatim>\<open>FileSystem::openRelatedFile\<close> and the two-file constructor of
  \<^verbatim>\<open>DreamcastSave\<close>. They are parameters of the model.
\<close>

record Env =
  file_ext :: "string \<Rightarrow> string option"
  openRelatedFile :: "string \<Rightarrow> string \<Rightarrow> IRpFile option"
  newDreamcastSave :: "IRpFile \<Rightarrow> IRpFile \<Rightarrow> RomData"

subsection \<open>What a run does: events\<close>

text \<open>
  Several claims speak about what the dispatcher does not do (no read, no predicate
  call). The model therefore returns, next to the result, the list of file operations
  and descriptor operations in the order the code performs them. Descriptors are named
  by stage and table index.
\<close>

datatype stage = Magic | Header | Footer

datatype event =
    FileSize
  | Rewind
  | Read nat
  | Seek int
  | SeekAndRead int nat
  | OpenPair
  | MagicCompare nat
  | IsRomSupported stage nat
  | NewRomData stage nat
  | Unref stage nat

datatype origin = FromPair | FromTable stage nat

datatype create_result = Null | Handler origin RomData | OutOfBounds

datatype scan_result = Found nat RomData | NotFound | ReturnNull | BadIndex

definition prepend :: "event list \<Rightarrow> 'a \<times> event list \<Rightarrow> 'a \<times> event list" where
  "prepend evs r = (fst r, evs @ snd r)"

subsection \<open>Helpers of the C library and the header buffer\<close>

text \<open>\<^verbatim>\<open>strcasecmp(a, b) == 0\<close> in the C locale: equality after lower-casing A to Z.\<close>

definition tolower_c :: "char \<Rightarrow> char" where
  "tolower_c c = (let n = (of_char c :: nat) in if 65 \<le> n \<and> n \<le> 90 then char_of (n + 32) else c)"

definition strcasecmp_eq :: "string \<Rightarrow> string \<Rightarrow> bool" where
  "strcasecmp_eq a b \<longleftrightarrow> map tolower_c a = map tolower_c b"

text \<open>
  The header buffer is a union of \<^verbatim>\<open>uint8_t u8[4096+256]\<close> and
  \<^verbatim>\<open>uint32_t u32[(4096+256)/4]\<close> on the stack. It is not initialised: its first
  contents are whatever the stack holds, a parameter \<open>stack\<close> of the model. A read of
  \<open>k\<close> bytes overwrites the first \<open>k\<close> bytes and leaves the rest.
\<close>

definition buf_write :: "u8 list \<Rightarrow> u8 list \<Rightarrow> u8 list" where
  "buf_write data buf = data @ drop (length data) buf"

text \<open>
  \<^verbatim>\<open>header.u32[k]\<close>: the host loads four bytes in its own byte order. An index
  beyond the buffer is excluded by an \<^verbatim>\<open>assert\<close> in the source only; the model
  answers \<open>None\<close> there, which the scan turns into the outcome \<open>OutOfBounds\<close>.
\<close>

definition load_u32 :: "bool \<Rightarrow> u8 list \<Rightarrow> nat \<Rightarrow> u32 option" where
  "load_u32 le buf k =
     (if 4 * k + 4 \<le> length buf then
        Some (if le then be_u32 (buf ! (4 * k + 3)) (buf ! (4 * k + 2)) (buf ! (4 * k + 1)) (buf ! (4 * k))
              else be_u32 (buf ! (4 * k)) (buf ! (4 * k + 1)) (buf ! (4 * k + 2)) (buf ! (4 * k + 3)))
      else None)"

subsection \<open>The paired-file special case\<close>

text \<open>
  \<^verbatim>\<open>RomDataFactoryPrivate::openDreamcastVMSandVMI\<close>. The three size constants come
  from \<^verbatim>\<open>dc_structs.h\<close>; the source comments give their values: VMS files are a
  multiple of 512 bytes or 160 bytes, VMI files are 108 bytes.
\<close>

definition DC_VMS_BLOCK_SIZE :: int where "DC_VMS_BLOCK_SIZE = 512"
definition DC_VMS_ICONDATA_MONO_MINSIZE :: int where "DC_VMS_ICONDATA_MONO_MINSIZE = 160"
definition DC_VMI_Header_SIZE :: int where "DC_VMI_Header_SIZE = 108"

definition openDreamcastVMSandVMI :: "Env \<Rightarrow> IRpFile \<Rightarrow> RomData option" where
  "openDreamcastVMSandVMI env file =
     (let filesize = f_size file;
          has_dc_vms = (filesize mod DC_VMS_BLOCK_SIZE = 0
                        \<or> filesize = DC_VMS_ICONDATA_MONO_MINSIZE);
          has_dc_vmi = (filesize = DC_VMI_Header_SIZE)
      in if \<not> (has_dc_vms \<noteq> has_dc_vmi) then None
         else
           let rel_ext = (if has_dc_vms then ''.VMI'' else ''.VMS'')
           in case openRelatedFile env (f_filename file) rel_ext of
                None \<Rightarrow> None
              | Some other_file \<Rightarrow>
                  let dcSave = (if has_dc_vms then newDreamcastSave env file other_file
                                else newDreamcastSave env other_file file)
                  in if \<not> isValid dcSave then None else Some dcSave)"

subsection \<open>The three stages\<close>

text \<open>
  The tail shared by the three loop bodies: ask the descriptor's predicate, construct,
  keep a valid handler, release an invalid one.
\<close>

definition try_fns :: "stage \<Rightarrow> nat \<Rightarrow> RomDataFns \<Rightarrow> IRpFile \<Rightarrow> DetectInfo
    \<Rightarrow> RomData option \<times> event list" where
  "try_fns st i fns file info =
     (if isRomSupported fns info \<ge> 0 then
        (let romData = newRomData fns file
         in if isValid romData then (Some romData, [IsRomSupported st i, NewRomData st i])
            else (None, [IsRomSupported st i, NewRomData st i, Unref st i]))
      else (None, [IsRomSupported st i]))"

text \<open>The loop over \<^verbatim>\<open>romDataFns_magic\<close>; \<open>i\<close> is the index of the head of the list.\<close>

fun scan_magic :: "bool \<Rightarrow> IRpFile \<Rightarrow> u32 \<Rightarrow> DetectInfo \<Rightarrow> nat \<Rightarrow> RomDataFns list
    \<Rightarrow> scan_result \<times> event list" where
  "scan_magic le file attrs info i [] = (NotFound, [])"
| "scan_magic le file attrs info i (fns # rest) =
     (if (attrs_f fns AND attrs) \<noteq> attrs then scan_magic le file attrs info (Suc i) rest
      else
        case load_u32 le (header_pData info) (unat (address fns) div 4) of
          None \<Rightarrow> (BadIndex, [])
        | Some magic \<Rightarrow>
            if be32_to_cpu le magic = size_f fns then
              (case try_fns Magic i fns file info of
                 (Some romData, evs) \<Rightarrow> (Found i romData, MagicCompare i # evs)
               | (None, evs) \<Rightarrow>
                   prepend (MagicCompare i # evs) (scan_magic le file attrs info (Suc i) rest))
            else prepend [MagicCompare i] (scan_magic le file attrs info (Suc i) rest))"

text \<open>
  The window logic at the head of the body of the header loop. \<open>Brk\<close> is the
  \<^verbatim>\<open>break\<close>, \<open>Skip\<close> a \<^verbatim>\<open>continue\<close>, \<open>Ready\<close> falls through to the predicate.
  Note that \<^verbatim>\<open>info.header.addr\<close> is assigned before the seek is known to succeed.
\<close>

datatype window = Brk | Skip DetectInfo "event list" | Ready DetectInfo "event list"

definition header_window :: "IRpFile \<Rightarrow> DetectInfo \<Rightarrow> RomDataFns \<Rightarrow> window" where
  "header_window file info fns =
     (if address fns \<noteq> header_addr info \<or> size_f fns > header_size info then
        (case ext info of
           None \<Rightarrow> Brk
         | Some e \<Rightarrow>
             if \<not> strcasecmp_eq e ''.bin'' \<and> \<not> strcasecmp_eq e ''.sms''
                \<and> \<not> strcasecmp_eq e ''.gg'' \<and> \<not> strcasecmp_eq e ''.tgc'' then Brk
             else if size_f fns = 0 \<or> size_f fns > 4352 then Skip info []
             else if uint (address fns) + uint (size_f fns) > szFile info then Skip info []
             else
               let info1 = info\<lparr>header_addr := address fns\<rparr>;
                   pos = uint (header_addr info1)
               in if \<not> f_seek file pos then Skip info1 [Seek pos]
                  else
                    let data = file_read file pos (unat (size_f fns));
                        info2 = info1\<lparr>header_size := of_nat (length data),
                                      header_pData := buf_write data (header_pData info1)\<rparr>
                    in if header_size info2 \<noteq> size_f fns
                       then Skip info2 [Seek pos, Read (unat (size_f fns))]
                       else Ready info2 [Seek pos, Read (unat (size_f fns))])
      else Ready info [])"

text \<open>
  The loop over \<^verbatim>\<open>romDataFns_header\<close>. It also returns the detection info it leaves
  behind, which the footer stage goes on using.
\<close>

fun scan_header :: "IRpFile \<Rightarrow> u32 \<Rightarrow> DetectInfo \<Rightarrow> nat \<Rightarrow> RomDataFns list
    \<Rightarrow> (scan_result \<times> DetectInfo) \<times> event list" where
  "scan_header file attrs info i [] = ((NotFound, info), [])"
| "scan_header file attrs info i (fns # rest) =
     (if (attrs_f fns AND attrs) \<noteq> attrs then scan_header file attrs info (Suc i) rest
      else
        case header_window file info fns of
          Brk \<Rightarrow> ((NotFound, info), [])
        | Skip info' evs \<Rightarrow> prepend evs (scan_header file attrs info' (Suc i) rest)
        | Ready info' evs \<Rightarrow>
            (case try_fns Header i fns file info' of
               (Some romData, evs2) \<Rightarrow> ((Found i romData, info'), evs @ evs2)
             | (None, evs2) \<Rightarrow>
                 prepend (evs @ evs2) (scan_header file attrs info' (Suc i) rest)))"

text \<open>
  Reading the footer window, guarded by the flag \<^verbatim>\<open>readFooter\<close>. The first component
  is \<open>None\<close> when the code returns \<^verbatim>\<open>nullptr\<close> on a failed read.
\<close>

definition footer_size :: int where "footer_size = 1024"

definition footer_window :: "IRpFile \<Rightarrow> DetectInfo \<Rightarrow> bool \<Rightarrow> DetectInfo option \<times> event list" where
  "footer_window file info readFooter =
     (if \<not> readFooter then
        (if szFile info > footer_size then
           let addr = (word_of_int (szFile info - footer_size) :: u32);
               data = seekAndRead file (uint addr) (nat footer_size);
               info' = info\<lparr>header_addr := addr, header_size := of_nat (length data),
                            header_pData := buf_write data (header_pData info)\<rparr>
           in if header_size info' = 0 then (None, [SeekAndRead (uint addr) (nat footer_size)])
              else (Some info', [SeekAndRead (uint addr) (nat footer_size)])
         else (Some info, []))
      else (Some info, []))"

text \<open>The loop over \<^verbatim>\<open>romDataFns_footer\<close>.\<close>

fun scan_footer :: "IRpFile \<Rightarrow> u32 \<Rightarrow> DetectInfo \<Rightarrow> bool \<Rightarrow> nat \<Rightarrow> RomDataFns list
    \<Rightarrow> scan_result \<times> event list" where
  "scan_footer file attrs info readFooter i [] = (NotFound, [])"
| "scan_footer file attrs info readFooter i (fns # rest) =
     (if (attrs_f fns AND attrs) \<noteq> attrs
      then scan_footer file attrs info readFooter (Suc i) rest
      else if (case ext info of None \<Rightarrow> True | Some e \<Rightarrow> \<not> strcasecmp_eq e ''.vb'')
      then scan_footer file attrs info readFooter (Suc i) rest
      else
        case footer_window file info readFooter of
          (None, evs) \<Rightarrow> (ReturnNull, evs)
        | (Some info', evs) \<Rightarrow>
            (case try_fns Footer i fns file info' of
               (Some romData, evs2) \<Rightarrow> (Found i romData, evs @ evs2)
             | (None, evs2) \<Rightarrow>
                 prepend (evs @ evs2) (scan_footer file attrs info' True (Suc i) rest)))"

subsection \<open>create\<close>

text \<open>The three staged passes of \<^verbatim>\<open>RomDataFactory::create\<close>, after the special case.\<close>

definition staged :: "bool \<Rightarrow> Catalog \<Rightarrow> IRpFile \<Rightarrow> u32 \<Rightarrow> DetectInfo
    \<Rightarrow> create_result \<times> event list" where
  "staged le cat file attrs info =
     (case scan_magic le file attrs info 0 (romDataFns_magic cat) of
        (Found i romData, evs) \<Rightarrow> (Handler (FromTable Magic i) romData, evs)
      | (BadIndex, evs) \<Rightarrow> (OutOfBounds, evs)
      | (_, evs) \<Rightarrow>
          (case scan_header file attrs info 0 (romDataFns_header cat) of
             ((Found i romData, _), evs2) \<Rightarrow> (Handler (FromTable Header i) romData, evs @ evs2)
           | ((_, info'), evs2) \<Rightarrow>
               if szFile info' > 2 ^ 30 then (Null, evs @ evs2)
               else
                 (case scan_footer file attrs info' False 0 (romDataFns_footer cat) of
                    (Found i romData, evs3) \<Rightarrow>
                      (Handler (FromTable Footer i) romData, evs @ evs2 @ evs3)
                  | (_, evs3) \<Rightarrow> (Null, evs @ evs2 @ evs3))))"

text \<open>
  \<^verbatim>\<open>RomDataFactory::create(file, attrs)\<close>. \<^verbatim>\<open>rewind()\<close> is \<^verbatim>\<open>seek(0)\<close> with the
  result ignored, so the first read happens at position 0 when that seek succeeds and
  at the old position otherwise.
\<close>

definition create :: "bool \<Rightarrow> Env \<Rightarrow> Catalog \<Rightarrow> u8 list \<Rightarrow> IRpFile \<Rightarrow> u32
    \<Rightarrow> create_result \<times> event list" where
  "create le env cat stack file attrs =
     (let sz = f_size file;
          pos = (if f_seek file 0 then 0 else f_pos file);
          data = file_read file pos 4352;
          info0 = \<lparr>header_addr = 0, header_size = of_nat (length data),
                   header_pData = buf_write data stack, ext = None, szFile = sz\<rparr>;
          evs0 = [FileSize, Rewind, Read 4352]
      in if header_size info0 = 0 then (Null, evs0)
         else
           let filename = f_filename file;
               info = info0\<lparr>ext := (if filename \<noteq> [] then file_ext env filename else None)\<rparr>;
               is_dc = (case ext info of None \<Rightarrow> False
                        | Some e \<Rightarrow> strcasecmp_eq e ''.vms'' \<or> strcasecmp_eq e ''.vmi'')
           in if is_dc then
                (case openDreamcastVMSandVMI env file of
                   Some romData \<Rightarrow>
                     if isValid romData then (Handler FromPair romData, evs0 @ [OpenPair])
                     else prepend (evs0 @ [OpenPair]) (staged le cat file attrs info)
                 | None \<Rightarrow> prepend (evs0 @ [OpenPair]) (staged le cat file attrs info))
              else prepend evs0 (staged le cat file attrs info))"

section \<open>Format detection: notions used to state the claims\<close>

text \<open>
  The descriptor an event belongs to, as stage and table index; file operations belong
  to none.
\<close>

fun event_descr :: "event \<Rightarrow> (stage \<times> nat) option" where
  "event_descr (MagicCompare i) = Some (Magic, i)"
| "event_descr (IsRomSupported st i) = Some (st, i)"
| "event_descr (NewRomData st i) = Some (st, i)"
| "event_descr (Unref st i) = Some (st, i)"
| "event_descr _ = None"

text \<open>The table of a stage.\<close>

fun table_of :: "Catalog \<Rightarrow> stage \<Rightarrow> RomDataFns list" where
  "table_of cat Magic = romDataFns_magic cat"
| "table_of cat Header = romDataFns_header cat"
| "table_of cat Footer = romDataFns_footer cat"

text \<open>
  The capability filter: the descriptor offers every requested attribute bit. The loops
  test the negation, \<^verbatim>\<open>(fns->attrs & attrs) != attrs\<close>, and skip.
\<close>

definition has_attrs :: "u32 \<Rightarrow> RomDataFns \<Rightarrow> bool" where
  "has_attrs attrs fns \<longleftrightarrow> (attrs_f fns AND attrs) = attrs"

text \<open>
  A descriptor accepts a file through a window when its predicate answers a class id
  (\<open>\<ge> 0\<close>) and the handler it constructs reports valid.
\<close>

definition accepts :: "IRpFile \<Rightarrow> DetectInfo \<Rightarrow> RomDataFns \<Rightarrow> bool" where
  "accepts f info fns \<longleftrightarrow> isRomSupported fns info \<ge> 0 \<and> isValid (newRomData fns f)"

text \<open>
  Index bookkeeping for the loops: \<open>i\<close> is a position of the table whose head has
  index \<open>i0\<close>, and the descriptor there passes the capability filter.
\<close>

definition at_index :: "u32 \<Rightarrow> RomDataFns list \<Rightarrow> nat \<Rightarrow> nat \<Rightarrow> bool" where
  "at_index attrs tbl i0 i \<longleftrightarrow> i0 \<le> i \<and> i - i0 < length tbl \<and> has_attrs attrs (tbl ! (i - i0))"

text \<open>
  The outcome of the magic compare of the source,
  \<^verbatim>\<open>be32_to_cpu(header.u32[fns->address/4]) == fns->size\<close>; \<open>None\<close> when the
  index lies outside the buffer.
\<close>

definition magic_eq :: "bool \<Rightarrow> DetectInfo \<Rightarrow> RomDataFns \<Rightarrow> bool option" where
  "magic_eq le info fns =
     map_option (\<lambda>magic. be32_to_cpu le magic = size_f fns)
       (load_u32 le (header_pData info) (unat (address fns) div 4))"

text \<open>The extension test of the footer loop, \<^verbatim>\<open>info.ext && !strcasecmp(info.ext, ".vb")\<close>.\<close>

definition vb_ext :: "DetectInfo \<Rightarrow> bool" where
  "vb_ext info \<longleftrightarrow> (case ext info of None \<Rightarrow> False | Some e \<Rightarrow> strcasecmp_eq e ''.vb'')"

text \<open>The read of the trailing window is the only \<^verbatim>\<open>seekAndRead\<close> of the dispatcher.\<close>

fun is_footer_read :: "event \<Rightarrow> bool" where
  "is_footer_read (SeekAndRead p n) = True"
| "is_footer_read _ = False"

subsection \<open>The claimed behaviour, stated separately from the code\<close>

text \<open>
  The specification describes detection as: scan the magic stage, then the header
  stage, then the footer stage, each in table order, and return the handler of the
  first descriptor whose check succeeds, whose predicate accepts and whose handler is
  valid. The definitions below spell this out without the control flow of the source:
  first the list of candidates (descriptors whose check succeeds, with the window each
  is offered), then the first accepted one. That \<open>create\<close> computes the same is a
  theorem, not a definition.
\<close>

type_synonym candidate = "stage \<times> nat \<times> RomDataFns \<times> DetectInfo"

text \<open>The big-endian 32-bit word at a byte offset of the buffer.\<close>

definition be32_at :: "u8 list \<Rightarrow> nat \<Rightarrow> u32 option" where
  "be32_at buf off =
     (if off + 4 \<le> length buf
      then Some (be_u32 (buf ! off) (buf ! (off + 1)) (buf ! (off + 2)) (buf ! (off + 3)))
      else None)"

text \<open>
  The check of the magic stage: capability filter, and the big-endian word at the
  descriptor's offset equals the descriptor's magic.
\<close>

definition magic_check :: "DetectInfo \<Rightarrow> u32 \<Rightarrow> RomDataFns \<Rightarrow> bool" where
  "magic_check info attrs fns \<longleftrightarrow>
     has_attrs attrs fns \<and> be32_at (header_pData info) (unat (address fns)) = Some (size_f fns)"

text \<open>
  The two \<^verbatim>\<open>assert\<close>s of the magic loop, as a condition on the static table:
  \<^verbatim>\<open>fns->address % 4 == 0\<close> and
  \<^verbatim>\<open>fns->address + sizeof(uint32_t) <= sizeof(header.u32)\<close>.
\<close>

definition magic_table_ok :: "RomDataFns list \<Rightarrow> bool" where
  "magic_table_ok tbl \<longleftrightarrow>
     (\<forall>fns \<in> set tbl. unat (address fns) mod 4 = 0 \<and> unat (address fns) + 4 \<le> 4352)"

text \<open>Candidates of the magic stage, all offered the initial window.\<close>

fun magic_visits :: "DetectInfo \<Rightarrow> u32 \<Rightarrow> nat \<Rightarrow> RomDataFns list \<Rightarrow> candidate list" where
  "magic_visits info attrs i [] = []"
| "magic_visits info attrs i (fns # rest) =
     (if magic_check info attrs fns then [(Magic, i, fns, info)] else [])
       @ magic_visits info attrs (Suc i) rest"

text \<open>
  Candidates of the header stage. The check of a descriptor is that its window is
  available (\<open>header_window\<close> answers \<open>Ready\<close>); the stage ends at the first
  descriptor for which the source breaks out of the loop. The second component is the
  detection info the stage leaves behind.
\<close>

fun header_visits :: "IRpFile \<Rightarrow> u32 \<Rightarrow> DetectInfo \<Rightarrow> nat \<Rightarrow> RomDataFns list
    \<Rightarrow> candidate list \<times> DetectInfo" where
  "header_visits f attrs info i [] = ([], info)"
| "header_visits f attrs info i (fns # rest) =
     (if \<not> has_attrs attrs fns then header_visits f attrs info (Suc i) rest
      else
        case header_window f info fns of
          Brk \<Rightarrow> ([], info)
        | Skip info' evs \<Rightarrow> header_visits f attrs info' (Suc i) rest
        | Ready info' evs \<Rightarrow>
            ((Header, i, fns, info') # fst (header_visits f attrs info' (Suc i) rest),
             snd (header_visits f attrs info' (Suc i) rest)))"

text \<open>
  Candidates of the footer stage: capability filter and extension test; the stage ends
  when reading the trailing window fails.
\<close>

fun footer_visits :: "IRpFile \<Rightarrow> u32 \<Rightarrow> DetectInfo \<Rightarrow> bool \<Rightarrow> nat \<Rightarrow> RomDataFns list
    \<Rightarrow> candidate list" where
  "footer_visits f attrs info rf i [] = []"
| "footer_visits f attrs info rf i (fns # rest) =
     (if \<not> has_attrs attrs fns \<or> \<not> vb_ext info then footer_visits f attrs info rf (Suc i) rest
      else
        case fst (footer_window f info rf) of
          None \<Rightarrow> []
        | Some info' \<Rightarrow> (Footer, i, fns, info') # footer_visits f attrs info' True (Suc i) rest)"

text \<open>All candidates in scan order; no footer candidates for files over 1 GiB.\<close>

definition candidates :: "Catalog \<Rightarrow> IRpFile \<Rightarrow> u32 \<Rightarrow> DetectInfo \<Rightarrow> candidate list" where
  "candidates cat f attrs info =
     magic_visits info attrs 0 (romDataFns_magic cat)
     @ fst (header_visits f attrs info 0 (romDataFns_header cat))
     @ (let info' = snd (header_visits f attrs info 0 (romDataFns_header cat))
        in if szFile info' > 2 ^ 30 then []
           else footer_visits f attrs info' False 0 (romDataFns_footer cat))"

definition accepted :: "IRpFile \<Rightarrow> candidate \<Rightarrow> bool" where
  "accepted f c = (case c of (st, i, fns, info) \<Rightarrow> accepts f info fns)"

definition first_accepted :: "IRpFile \<Rightarrow> candidate list \<Rightarrow> create_result" where
  "first_accepted f cs =
     (case List.find (accepted f) cs of
        None \<Rightarrow> Null
      | Some (st, i, fns, info) \<Rightarrow> Handler (FromTable st i) (newRomData fns f))"

fun result_of :: "stage \<Rightarrow> scan_result \<Rightarrow> create_result" where
  "result_of st (Found i rd) = Handler (FromTable st i) rd"
| "result_of st _ = Null"

subsection \<open>The first steps of create\<close>

text \<open>
  The bytes delivered by the initial header read, the extension the dispatcher works
  with, and the detection info it starts from.
\<close>

definition first_read :: "IRpFile \<Rightarrow> u8 list" where
  "first_read f = file_read f (if f_seek f 0 then 0 else f_pos f) 4352"

definition file_extension :: "Env \<Rightarrow> IRpFile \<Rightarrow> string option" where
  "file_extension env f = (if f_filename f \<noteq> [] then file_ext env (f_filename f) else None)"

definition initial_info :: "Env \<Rightarrow> u8 list \<Rightarrow> IRpFile \<Rightarrow> DetectInfo" where
  "initial_info env stack f =
     \<lparr>header_addr = 0, header_size = of_nat (length (first_read f)),
      header_pData = buf_write (first_read f) stack,
      ext = file_extension env f, szFile = f_size f\<rparr>"

text \<open>
  The paired-file special case applies to the extensions \<^verbatim>\<open>.vms\<close> and
  \<^verbatim>\<open>.vmi\<close>; it succeeds when the sibling opens and the two-file handler is valid.
\<close>

definition is_dc_ext :: "Env \<Rightarrow> IRpFile \<Rightarrow> bool" where
  "is_dc_ext env f =
     (case file_extension env f of None \<Rightarrow> False
      | Some e \<Rightarrow> strcasecmp_eq e ''.vms'' \<or> strcasecmp_eq e ''.vmi'')"

definition paired_valid :: "Env \<Rightarrow> IRpFile \<Rightarrow> bool" where
  "paired_valid env f \<longleftrightarrow>
     is_dc_ext env f \<and> (\<exists>rd. openDreamcastVMSandVMI env f = Some rd \<and> isValid rd)"

text \<open>Counting constructed and released handlers in a trace.\<close>

fun is_new :: "event \<Rightarrow> bool" where
  "is_new (NewRomData st i) = True"
| "is_new _ = False"

fun is_unref :: "event \<Rightarrow> bool" where
  "is_unref (Unref st i) = True"
| "is_unref _ = False"

fun from_table :: "create_result \<Rightarrow> bool" where
  "from_table (Handler (FromTable st i) rd) = True"
| "from_table _ = False"

text \<open>The detection info the header loop leaves behind.\<close>

definition after_header :: "IRpFile \<Rightarrow> u32 \<Rightarrow> Catalog \<Rightarrow> DetectInfo \<Rightarrow> DetectInfo" where
  "after_header f attrs cat info = snd (fst (scan_header f attrs info 0 (romDataFns_header cat)))"

definition constructed :: "event list \<Rightarrow> nat" where
  "constructed evs = length (filter is_new evs)"

definition released :: "event list \<Rightarrow> nat" where
  "released evs = length (filter is_unref evs)"

fun is_found :: "scan_result \<Rightarrow> bool" where
  "is_found (Found i rd) = True"
| "is_found _ = False"

section \<open>Concrete inputs for the dispatcher\<close>

text \<open>
  Small concrete files, a catalog and collaborators on which the statements below are
  evaluated. \<open>last_dot\<close> stands in for \<^verbatim>\<open>FileSystem::file_ext\<close> (the suffix from
  the last dot on); \<open>mem_file\<close> is a file backed by a byte list.
\<close>

definition valid_handler :: "string \<Rightarrow> RomData" where
  "valid_handler n = \<lparr>isValid = True, className = n\<rparr>"

definition invalid_handler :: "string \<Rightarrow> RomData" where
  "invalid_handler n = \<lparr>isValid = False, className = n\<rparr>"

definition mem_file :: "string \<Rightarrow> int \<Rightarrow> u8 list \<Rightarrow> IRpFile" where
  "mem_file name sz bytes =
     \<lparr>f_size = sz, f_filename = name, f_pos = 0, f_seek = (\<lambda>p. 0 \<le> p),
      f_read = (\<lambda>p n. take n (drop (nat p) bytes))\<rparr>"

fun last_dot :: "string \<Rightarrow> string option" where
  "last_dot [] = None"
| "last_dot (c # cs) =
     (case last_dot cs of
        Some e \<Rightarrow> Some e
      | None \<Rightarrow> if c = CHR ''.'' then Some (c # cs) else None)"

definition demo_env :: Env where
  "demo_env =
     \<lparr>file_ext = last_dot,
      openRelatedFile = (\<lambda>name rel_ext. None),
      newDreamcastSave = (\<lambda>vms vmi. valid_handler ''DreamcastSave'')\<rparr>"

definition dc_env :: Env where
  "dc_env = demo_env\<lparr>openRelatedFile := (\<lambda>name rel_ext. Some (mem_file ''SAVE.VMI'' 108 (replicate 108 0)))\<rparr>"

text \<open>
  A catalog with two magic descriptors for the magic \<^verbatim>\<open>'LYNX'\<close> (the first one
  offers the thumbnail attribute but constructs an invalid handler), a header descriptor
  that accepts exactly a zero-length header, and a footer descriptor.
\<close>

definition demo_cat :: Catalog where
  "demo_cat =
     \<lparr>romDataFns_magic =
        [\<lparr>isRomSupported = (\<lambda>info. 0), newRomData = (\<lambda>f. invalid_handler ''WiiWIBN''),
          attrs_f = 1, address = 0, size_f = 0x4C594E58\<rparr>,
         \<lparr>isRomSupported = (\<lambda>info. 0), newRomData = (\<lambda>f. valid_handler ''Lynx''),
          attrs_f = 0, address = 0, size_f = 0x4C594E58\<rparr>],
      romDataFns_header =
        [\<lparr>isRomSupported = (\<lambda>info. if header_size info = 0 then 0 else - 1),
          newRomData = (\<lambda>f. valid_handler ''Any''),
          attrs_f = 0, address = 0, size_f = 0\<rparr>],
      romDataFns_footer =
        [\<lparr>isRomSupported = (\<lambda>info. 0), newRomData = (\<lambda>f. valid_handler ''VirtualBoy''),
          attrs_f = 0, address = 0, size_f = 0\<rparr>]\<rparr>"

definition no_catalog :: Catalog where
  "no_catalog = \<lparr>romDataFns_magic = [], romDataFns_header = [], romDataFns_footer = []\<rparr>"

definition stack0 :: "u8 list" where
  "stack0 = replicate 4352 0"

definition lynx_file :: IRpFile where
  "lynx_file = mem_file ''GAME.lnx'' 8 [0x4C, 0x59, 0x4E, 0x58, 0, 0, 0, 0]"

definition dc_vms_file :: IRpFile where
  "dc_vms_file = mem_file ''SAVE.vms'' 512 (replicate 512 0)"

definition vb_file :: IRpFile where
  "vb_file = mem_file ''GAME.vb'' 2048 (replicate 2048 1)"

definition big_vb_file :: IRpFile where
  "big_vb_file = mem_file ''GAME.vb'' (2 ^ 30 + 1) (replicate (2 ^ 30 + 1) 1)"

definition empty_file :: IRpFile where
  "empty_file = mem_file ''EMPTY.bin'' 0 []"

section \<open>RomFields: age ratings\<close>

text \<open>
  The bit masks \<^verbatim>\<open>AGEBF_*\<close> and the country indices \<^verbatim>\<open>AGE_*\<close> are enumerators
  declared in \<^verbatim>\<open>RomFields.hpp\<close>, which is not among the sources at hand. The model
  takes them as a parameter; \<open>age_consts_ok\<close> below states what the decoding relies on.
\<close>

record AgeConsts =
  AGEBF_MIN_AGE_MASK :: u16
  AGEBF_ACTIVE :: u16
  AGEBF_PENDING :: u16
  AGEBF_NO_RESTRICTION :: u16
  AGEBF_ONLINE_PLAY :: u16
  AGEBF_PROHIBITED :: u16
  AGE_JAPAN :: int
  AGE_USA :: int
  AGE_AUSTRALIA :: int

text \<open>\<^verbatim>\<open>rp_sprintf("%u", n)\<close> (and \<^verbatim>\<open>"%d"\<close> on a non-negative index): decimal digits.\<close>

function rp_sprintf_u :: "nat \<Rightarrow> string" where
  "rp_sprintf_u n =
     (if n < 10 then [''0123456789'' ! n]
      else rp_sprintf_u (n div 10) @ [''0123456789'' ! (n mod 10)])"
  by pat_completeness auto

termination
  by (relation "measure id") auto

text \<open>The three inner \<^verbatim>\<open>switch\<close> statements on the minimum age; \<open>None\<close> is the \<^verbatim>\<open>default\<close> case.\<close>

definition switch_japan :: "u16 \<Rightarrow> string option" where
  "switch_japan age =
     (if age = 0 then Some ''A''
      else if age = 12 then Some ''B''
      else if age = 15 then Some ''C''
      else if age = 17 then Some ''D''
      else if age = 18 then Some ''Z''
      else None)"

definition switch_usa :: "u16 \<Rightarrow> string option" where
  "switch_usa age =
     (if age = 3 then Some ''eC''
      else if age = 6 then Some ''E''
      else if age = 10 then Some ''E10+''
      else if age = 13 then Some ''T''
      else if age = 17 then Some ''M''
      else if age = 18 then Some ''AO''
      else None)"

definition switch_australia :: "u16 \<Rightarrow> string option" where
  "switch_australia age =
     (if age = 0 then Some ''G''
      else if age = 7 then Some ''PG''
      else if age = 14 then Some ''M''
      else if age = 15 then Some ''MA15+''
      else if age = 18 then Some ''R18+''
      else None)"

text \<open>
  \<^verbatim>\<open>RomFields::ageRatingDecode\<close>. \<open>C_tr\<close> is the gettext macro \<^verbatim>\<open>C_(context, msgid)\<close>.
  The suffix appended for online play is U+00B0 in UTF-8.
\<close>

definition ageRatingDecode :: "AgeConsts \<Rightarrow> (string \<Rightarrow> string \<Rightarrow> string) \<Rightarrow> int \<Rightarrow> u16 \<Rightarrow> string" where
  "ageRatingDecode c C_tr country rating =
     (if rating AND AGEBF_ACTIVE c = 0 then []
      else
        let s_rating =
              (if rating AND AGEBF_PROHIBITED c \<noteq> 0 then Some (C_tr ''RomFields|AgeRating'' ''No'')
               else if rating AND AGEBF_PENDING c \<noteq> 0 then Some ''RP''
               else if rating AND AGEBF_NO_RESTRICTION c \<noteq> 0
                 then Some (C_tr ''RomFields|AgeRating'' ''All'')
               else if country = AGE_JAPAN c then switch_japan (rating AND AGEBF_MIN_AGE_MASK c)
               else if country = AGE_USA c then switch_usa (rating AND AGEBF_MIN_AGE_MASK c)
               else if country = AGE_AUSTRALIA c
                 then switch_australia (rating AND AGEBF_MIN_AGE_MASK c)
               else None);
            str = (case s_rating of
                     Some s \<Rightarrow> s
                   | None \<Rightarrow> rp_sprintf_u (unat (rating AND AGEBF_MIN_AGE_MASK c)))
        in if rating AND AGEBF_ONLINE_PLAY c \<noteq> 0 then str @ [CHR 0xC2, CHR 0xB0] else str)"

text \<open>\<^verbatim>\<open>RomFields::ageRatingAbbrev\<close> with its table of sixteen abbreviations.\<close>

definition abbrevs_tbl :: "string list" where
  "abbrevs_tbl =
     [''CERO'', ''ESRB'', '''', ''USK'',
      ''PEGI'', ''MEKU'', ''PEGI-PT'', ''BBFC'',
      ''ACB'', ''GRB'', ''CGSRR'', '''',
      '''', '''', '''', '''']"

definition ageRatingAbbrev :: "int \<Rightarrow> string option" where
  "ageRatingAbbrev country =
     (if country < 0 \<or> country \<ge> int (length abbrevs_tbl) then None
      else if abbrevs_tbl ! nat country \<noteq> [] then Some (abbrevs_tbl ! nat country)
      else None)"

text \<open>
  \<^verbatim>\<open>RomFields::ageRatingsDecode\<close>: the loop over the slots with its two accumulators,
  and the function itself, whose argument is a pointer that may be null.
\<close>

fun ageRatingsDecode_loop :: "AgeConsts \<Rightarrow> (string \<Rightarrow> string \<Rightarrow> string) \<Rightarrow> bool \<Rightarrow> nat \<Rightarrow> u16 list
    \<Rightarrow> string \<Rightarrow> nat \<Rightarrow> string \<times> nat" where
  "ageRatingsDecode_loop c C_tr newlines i [] str ratings_count = (str, ratings_count)"
| "ageRatingsDecode_loop c C_tr newlines i (rating # rest) str ratings_count =
     (if rating AND AGEBF_ACTIVE c = 0
      then ageRatingsDecode_loop c C_tr newlines (Suc i) rest str ratings_count
      else
        let str1 = (if ratings_count > 0
                    then (if newlines \<and> ratings_count mod 4 = 0
                          then str @ [CHR '','', CHR 0x0A] else str @ '', '')
                    else str);
            str2 = str1 @ (case ageRatingAbbrev (int i) of
                             Some abbrev \<Rightarrow> abbrev
                           | None \<Rightarrow> rp_sprintf_u i);
            str3 = str2 @ ''='' @ ageRatingDecode c C_tr (int i) rating
        in ageRatingsDecode_loop c C_tr newlines (Suc i) rest str3 (Suc ratings_count))"

definition ageRatingsDecode :: "AgeConsts \<Rightarrow> (string \<Rightarrow> string \<Rightarrow> string) \<Rightarrow> u16 list option \<Rightarrow> bool
    \<Rightarrow> string" where
  "ageRatingsDecode c C_tr age_ratings newlines =
     (case age_ratings of
        None \<Rightarrow> []
      | Some ratings \<Rightarrow>
          let r = ageRatingsDecode_loop c C_tr newlines 0 ratings [] 0
          in if snd r = 0 then C_tr ''RomFields|AgeRating'' ''None'' else fst r)"

text \<open>
  The body of the conversion loop of \<^verbatim>\<open>Nintendo3DS_SMDH::loadFieldData\<close>: the raw
  rating byte of slot \<open>i\<close> of the file (0x80 valid, 0x40 pending, 0x20 no restriction,
  0x1F age) becomes a \<^verbatim>\<open>RomFields\<close> rating. The mask \<^verbatim>\<open>valid_ratings = 0x7DB\<close> names
  the slots the 3DS uses.
\<close>

definition n3ds_age_rating :: "AgeConsts \<Rightarrow> nat \<Rightarrow> u8 \<Rightarrow> u16" where
  "n3ds_age_rating c i n3ds_rating =
     (if (0x7DB :: u16) AND push_bit i 1 = 0 then 0
      else if n3ds_rating AND 0x80 = 0 then 0
      else if n3ds_rating AND 0x40 \<noteq> 0 then AGEBF_ACTIVE c OR AGEBF_PENDING c
      else if n3ds_rating AND 0x20 \<noteq> 0 then AGEBF_ACTIVE c OR AGEBF_NO_RESTRICTION c
      else AGEBF_ACTIVE c OR ucast (n3ds_rating AND 0x1F))"

text \<open>
  What the decoding needs from the enumerators: the active and the no-restriction mask
  are not empty, the flag masks do not overlap each other or the age mask, and the
  \<^verbatim>\<open>case\<close> labels for USA and Japan differ.
\<close>

definition age_consts_ok :: "AgeConsts \<Rightarrow> bool" where
  "age_consts_ok c \<longleftrightarrow>
     AGEBF_ACTIVE c \<noteq> 0 \<and> AGEBF_NO_RESTRICTION c \<noteq> 0
     \<and> AGEBF_ACTIVE c AND AGEBF_PENDING c = 0
     \<and> AGEBF_ACTIVE c AND AGEBF_NO_RESTRICTION c = 0
     \<and> AGEBF_ACTIVE c AND AGEBF_ONLINE_PLAY c = 0
     \<and> AGEBF_ACTIVE c AND AGEBF_PROHIBITED c = 0
     \<and> AGEBF_ACTIVE c AND AGEBF_MIN_AGE_MASK c = 0
     \<and> AGEBF_NO_RESTRICTION c AND AGEBF_PENDING c = 0
     \<and> AGEBF_NO_RESTRICTION c AND AGEBF_ONLINE_PLAY c = 0
     \<and> AGEBF_NO_RESTRICTION c AND AGEBF_PROHIBITED c = 0
     \<and> AGE_USA c \<noteq> AGE_JAPAN c"

text \<open>The values the enumerators have in the upstream header, used for concrete checks.\<close>

definition rom_fields_hpp :: AgeConsts where
  "rom_fields_hpp =
     \<lparr>AGEBF_MIN_AGE_MASK = 0x001F, AGEBF_ACTIVE = 0x0020, AGEBF_PENDING = 0x0040,
      AGEBF_NO_RESTRICTION = 0x0080, AGEBF_ONLINE_PLAY = 0x0100, AGEBF_PROHIBITED = 0x0200,
      AGE_JAPAN = 0, AGE_USA = 1, AGE_AUSTRALIA = 8\<rparr>"

text \<open>Gettext without a message catalogue returns the message id.\<close>

definition no_gettext :: "string \<Rightarrow> string \<Rightarrow> string" where
  "no_gettext msgctxt msgid = msgid"

definition smdh_ratings :: "u8 list" where
  "smdh_ratings = [0x00, 0x8D, 0x00, 0xA0, 0x80, 0x00, 0x00, 0x00, 0x00, 0x00, 0x00, 0x00, 0x00, 0x00, 0x00, 0x00]"

text \<open>
  A rating that is a plain minimum age: active, with none of the status bits. A rating
  with the no-restriction status, and the slots the 3DS uses.
\<close>

definition plain_age :: "AgeConsts \<Rightarrow> u16 \<Rightarrow> bool" where
  "plain_age c rating \<longleftrightarrow>
     rating AND AGEBF_ACTIVE c \<noteq> 0 \<and> rating AND AGEBF_PROHIBITED c = 0
     \<and> rating AND AGEBF_PENDING c = 0 \<and> rating AND AGEBF_NO_RESTRICTION c = 0
     \<and> rating AND AGEBF_ONLINE_PLAY c = 0"

definition no_restriction :: "AgeConsts \<Rightarrow> u16 \<Rightarrow> bool" where
  "no_restriction c rating \<longleftrightarrow>
     rating AND AGEBF_ACTIVE c \<noteq> 0 \<and> rating AND AGEBF_PROHIBITED c = 0
     \<and> rating AND AGEBF_PENDING c = 0 \<and> rating AND AGEBF_NO_RESTRICTION c \<noteq> 0
     \<and> rating AND AGEBF_ONLINE_PLAY c = 0"

definition n3ds_slot :: "nat \<Rightarrow> bool" where
  "n3ds_slot i \<longleftrightarrow> (0x7DB :: u16) AND push_bit i 1 \<noteq> 0"

text \<open>
  The summary as the specification describes it: the entries of the active slots only,
  joined by separators. \<open>active_slots\<close> pairs each active rating with its slot index.
\<close>

definition active_slots :: "AgeConsts \<Rightarrow> nat \<Rightarrow> u16 list \<Rightarrow> (nat \<times> u16) list" where
  "active_slots c i ratings =
     filter (\<lambda>(j, r). r AND AGEBF_ACTIVE c \<noteq> 0) (zip [i..<i + length ratings] ratings)"

definition rating_entry :: "AgeConsts \<Rightarrow> (string \<Rightarrow> string \<Rightarrow> string) \<Rightarrow> nat \<Rightarrow> u16 \<Rightarrow> string" where
  "rating_entry c C_tr i r =
     (case ageRatingAbbrev (int i) of Some abbrev \<Rightarrow> abbrev | None \<Rightarrow> rp_sprintf_u i)
       @ ''='' @ ageRatingDecode c C_tr (int i) r"

definition separator :: "bool \<Rightarrow> nat \<Rightarrow> string" where
  "separator newlines n =
     (if n = 0 then [] else if newlines \<and> n mod 4 = 0 then [CHR '','', CHR 0x0A] else '', '')"

fun join_entries :: "AgeConsts \<Rightarrow> (string \<Rightarrow> string \<Rightarrow> string) \<Rightarrow> bool \<Rightarrow> (nat \<times> u16) list
    \<Rightarrow> string \<Rightarrow> nat \<Rightarrow> string" where
  "join_entries c C_tr newlines [] str n = str"
| "join_entries c C_tr newlines ((i, r) # rest) str n =
     join_entries c C_tr newlines rest (str @ separator newlines n @ rating_entry c C_tr i r) (Suc n)"

section \<open>RomFields: the field table\<close>

text \<open>
  A field (\<^verbatim>\<open>RomFields::Field\<close>) has a name, a type, a tab index, a validity flag and
  two unions \<^verbatim>\<open>desc\<close> and \<^verbatim>\<open>data\<close> whose active members depend on the type; the
  model joins the two unions into one payload per type. Pointers that may be null are
  options. The struct and the flag constants are declared in \<^verbatim>\<open>RomFields.hpp\<close>,
  which is not among the sources at hand: the constants and \<^verbatim>\<open>trimEnd\<close> are parameters.
\<close>

datatype RomFieldType =
  RFT_INVALID | RFT_STRING | RFT_BITFIELD | RFT_LISTDATA | RFT_DATETIME | RFT_AGE_RATINGS
  | RFT_DIMENSIONS

datatype mxd = NoMxd | Checkboxes u32 | Icons "nat list"

datatype field_payload =
    NoPayload
  | StringPayload u32 "string option"
  | BitfieldPayload int "string list" u32
  | ListDataPayload u32 int "string list option" "string list list option" mxd
  | DateTimePayload u32 int
  | AgeRatingsPayload "u16 list"
  | DimensionsPayload int int int

record Field =
  name :: string
  type_f :: RomFieldType
  tabIdx_f :: int
  isValid_f :: bool
  payload :: field_payload

record RomFieldsPrivate =
  fields_v :: "Field list"
  tabIdx :: u8
  tabNames :: "string list"

record AFLD_PARAMS =
  flags_p :: u32
  rows_visible :: int
  headers :: "string list option"
  list_data :: "string list list option"
  mxd_checkboxes :: u32
  mxd_icons :: "nat list option"

record RomFieldsConsts =
  STRF_TRIM_END :: u32
  RFT_LISTDATA_CHECKBOXES :: u32
  RFT_LISTDATA_ICONS :: u32
  trimEnd :: "string \<Rightarrow> string"

text \<open>\<^verbatim>\<open>static_cast<int>(idx)\<close> of a \<^verbatim>\<open>size_t\<close>, for a 32-bit \<^verbatim>\<open>int\<close>.\<close>

definition cast_int :: "nat \<Rightarrow> int" where
  "cast_int idx = sint (word_of_nat idx :: 32 word)"

text \<open>
  The steps every helper shares: \<^verbatim>\<open>idx = fields.size(); fields.resize(idx+1)\<close>, fill
  the new element, tag it with the current tab index, return \<^verbatim>\<open>idx\<close>.
\<close>

definition new_field :: "RomFieldsPrivate \<Rightarrow> string \<Rightarrow> RomFieldType \<Rightarrow> bool \<Rightarrow> field_payload
    \<Rightarrow> int \<times> RomFieldsPrivate" where
  "new_field d n ty valid p =
     (let idx = length (fields_v d);
          field = \<lparr>name = n, type_f = ty, tabIdx_f = uint (tabIdx d), isValid_f = valid,
                   payload = p\<rparr>
      in (cast_int idx, d\<lparr>fields_v := fields_v d @ [field]\<rparr>))"

text \<open>
  The helpers. Each starts with \<^verbatim>\<open>assert\<close>s on its required pointers followed by
  the same test with \<^verbatim>\<open>return -1\<close>; the model is the release build, where the
  assertions are compiled out. \<open>addField_string\<close> takes a C string,
  \<open>addField_string_s\<close> a \<^verbatim>\<open>std::string\<close>.
\<close>

definition addField_string :: "RomFieldsConsts \<Rightarrow> RomFieldsPrivate \<Rightarrow> string option \<Rightarrow> string option \<Rightarrow> u32
    \<Rightarrow> int \<times> RomFieldsPrivate" where
  "addField_string k d name_p str flags =
     (case name_p of
        None \<Rightarrow> (- 1, d)
      | Some n \<Rightarrow>
          let nstr = (case str of
                        None \<Rightarrow> None
                      | Some s \<Rightarrow> Some (if flags AND STRF_TRIM_END k \<noteq> 0 then trimEnd k s else s))
          in new_field d n RFT_STRING (name_p \<noteq> None) (StringPayload flags nstr))"

definition addField_string_s :: "RomFieldsConsts \<Rightarrow> RomFieldsPrivate \<Rightarrow> string option \<Rightarrow> string \<Rightarrow> u32
    \<Rightarrow> int \<times> RomFieldsPrivate" where
  "addField_string_s k d name_p str flags =
     (case name_p of
        None \<Rightarrow> (- 1, d)
      | Some n \<Rightarrow>
          let nstr = (if str \<noteq> []
                      then Some (if flags AND STRF_TRIM_END k \<noteq> 0 then trimEnd k str else str)
                      else None)
          in new_field d n RFT_STRING True (StringPayload flags nstr))"

definition addField_bitfield :: "RomFieldsPrivate \<Rightarrow> string option \<Rightarrow> string list option \<Rightarrow> int \<Rightarrow> u32
    \<Rightarrow> int \<times> RomFieldsPrivate" where
  "addField_bitfield d name_p bit_names elemsPerRow bitfield =
     (case (name_p, bit_names) of
        (Some n, Some names) \<Rightarrow>
          new_field d n RFT_BITFIELD True (BitfieldPayload elemsPerRow names bitfield)
      | _ \<Rightarrow> (- 1, d))"

definition addField_listData :: "RomFieldsConsts \<Rightarrow> RomFieldsPrivate \<Rightarrow> string option \<Rightarrow> AFLD_PARAMS option
    \<Rightarrow> int \<times> RomFieldsPrivate" where
  "addField_listData k d name_p params =
     (case (name_p, params) of
        (Some n, Some p) \<Rightarrow>
          let both = RFT_LISTDATA_CHECKBOXES k OR RFT_LISTDATA_ICONS k;
              flags = (if flags_p p AND both = both then flags_p p AND NOT both else flags_p p);
              rows = (if rows_visible p \<ge> 0 then rows_visible p else 0);
              pl = (if flags AND RFT_LISTDATA_CHECKBOXES k \<noteq> 0
                    then ListDataPayload (flags_p p) rows (headers p) (list_data p)
                           (Checkboxes (mxd_checkboxes p))
                    else if flags AND RFT_LISTDATA_ICONS k \<noteq> 0
                    then (case mxd_icons p of
                            Some icons \<Rightarrow>
                              ListDataPayload (flags_p p) rows (headers p) (list_data p) (Icons icons)
                          | None \<Rightarrow>
                              ListDataPayload (flags_p p AND NOT (RFT_LISTDATA_ICONS k)) rows
                                (headers p) (list_data p) NoMxd)
                    else ListDataPayload (flags_p p) rows (headers p) (list_data p) NoMxd)
          in new_field d n RFT_LISTDATA True pl
      | _ \<Rightarrow> (- 1, d))"

definition addField_dateTime :: "RomFieldsPrivate \<Rightarrow> string option \<Rightarrow> int \<Rightarrow> u32
    \<Rightarrow> int \<times> RomFieldsPrivate" where
  "addField_dateTime d name_p date_time flags =
     (case name_p of
        None \<Rightarrow> (- 1, d)
      | Some n \<Rightarrow> new_field d n RFT_DATETIME True (DateTimePayload flags date_time))"

definition addField_ageRatings :: "RomFieldsPrivate \<Rightarrow> string option \<Rightarrow> u16 list
    \<Rightarrow> int \<times> RomFieldsPrivate" where
  "addField_ageRatings d name_p age_ratings =
     (case name_p of
        None \<Rightarrow> (- 1, d)
      | Some n \<Rightarrow> new_field d n RFT_AGE_RATINGS True (AgeRatingsPayload age_ratings))"

definition addField_dimensions :: "RomFieldsPrivate \<Rightarrow> string option \<Rightarrow> int \<Rightarrow> int \<Rightarrow> int
    \<Rightarrow> int \<times> RomFieldsPrivate" where
  "addField_dimensions d name_p dimX dimY dimZ =
     (case name_p of
        None \<Rightarrow> (- 1, d)
      | Some n \<Rightarrow> new_field d n RFT_DIMENSIONS True (DimensionsPayload dimX dimY dimZ))"

text \<open>
  What it means that a call appended exactly one valid field of a type to the current
  tab and returned its index.
\<close>

definition appends_one :: "RomFieldsPrivate \<Rightarrow> RomFieldType \<Rightarrow> int \<times> RomFieldsPrivate \<Rightarrow> bool" where
  "appends_one d ty r \<longleftrightarrow>
     fields_v (snd r) \<noteq> [] \<and> butlast (fields_v (snd r)) = fields_v d
     \<and> tabIdx_f (last (fields_v (snd r))) = uint (tabIdx d)
     \<and> isValid_f (last (fields_v (snd r)))
     \<and> type_f (last (fields_v (snd r))) = ty
     \<and> fst r = int (length (fields_v d))
     \<and> tabIdx (snd r) = tabIdx d \<and> tabNames (snd r) = tabNames d"

text \<open>An empty field table whose current tab is 2.\<close>

definition fields0 :: RomFieldsPrivate where
  "fields0 = \<lparr>fields_v = [], tabIdx = 2, tabNames = [''A'', ''B'', ''C'']\<rparr>"

section \<open>The XDBF resource container: construction and lazy loads\<close>

text \<open>
  Modelled from the spec: the struct declarations of \<^verbatim>\<open>xdbf_structs.h\<close> are not in
  the source tree. The specification describes the container as a fixed header, an
  entry table of \<open>{namespace_id: u16, resource_id: u64, offset: u32, length: u32}\<close>
  records, string tables with a sub-header followed by \<open>{string_id: u16, length: u16,
  bytes}\<close> records, and a small default-language resource. The structs are packed; the
  header consists of the six 32-bit fields the constructor converts, in that order.
  A struct overlaid on file bytes holds each field as the host loads it.
\<close>

definition be_word :: "u8 list \<Rightarrow> 'a::len word" where
  "be_word bs = foldl (\<lambda>acc b. push_bit 8 acc OR ucast b) 0 bs"

definition host_word :: "bool \<Rightarrow> u8 list \<Rightarrow> 'a::len word" where
  "host_word le bs = (if le then be_word (rev bs) else be_word bs)"

definition bytes_at :: "nat \<Rightarrow> nat \<Rightarrow> 'a list \<Rightarrow> 'a list" where
  "bytes_at off n xs = take n (drop off xs)"

record XDBF_Header =
  magic :: u32
  version :: u32
  entry_table_length :: u32
  entry_count :: u32
  free_space_table_length :: u32
  free_space_table_count :: u32

definition sizeof_XDBF_Header :: nat where "sizeof_XDBF_Header = 24"

definition sizeof_XDBF_Entry :: nat where "sizeof_XDBF_Entry = 18"

definition sizeof_XDBF_Free_Space_Entry :: nat where "sizeof_XDBF_Free_Space_Entry = 8"

definition sizeof_XDBF_XSTR_Header :: nat where "sizeof_XDBF_XSTR_Header = 14"

definition sizeof_XDBF_XSTR_Entry_Header :: nat where "sizeof_XDBF_XSTR_Entry_Header = 4"

definition sizeof_XDBF_XSTC :: nat where "sizeof_XDBF_XSTC = 16"

definition overlay_header :: "bool \<Rightarrow> u8 list \<Rightarrow> XDBF_Header" where
  "overlay_header le bs =
     \<lparr>magic = host_word le (bytes_at 0 4 bs), version = host_word le (bytes_at 4 4 bs),
      entry_table_length = host_word le (bytes_at 8 4 bs),
      entry_count = host_word le (bytes_at 12 4 bs),
      free_space_table_length = host_word le (bytes_at 16 4 bs),
      free_space_table_count = host_word le (bytes_at 20 4 bs)\<rparr>"

definition overlay_entry :: "bool \<Rightarrow> u8 list \<Rightarrow> XDBF_Entry" where
  "overlay_entry le bs =
     \<lparr>namespace_id = host_word le (bytes_at 0 2 bs), resource_id = host_word le (bytes_at 2 8 bs),
      offset_e = host_word le (bytes_at 10 4 bs), length_e = host_word le (bytes_at 14 4 bs)\<rparr>"

definition overlay_entries :: "bool \<Rightarrow> nat \<Rightarrow> u8 list \<Rightarrow> XDBF_Entry list" where
  "overlay_entries le n bs =
     map (\<lambda>i. overlay_entry le (bytes_at (sizeof_XDBF_Entry * i) sizeof_XDBF_Entry bs)) [0..<n]"

text \<open>
  The magic numbers, namespace ids and the number of languages are enumerators and
  macros of the missing header; they are parameters of the model. The language ids
  \<^verbatim>\<open>XDBF_LANGUAGE_UNKNOWN\<close> and \<^verbatim>\<open>XDBF_LANGUAGE_ENGLISH\<close> are 0 and 1: the source notes
  that English is language 1, and keeps index 0 of its per-language arrays for the
  unknown language.
\<close>

record XDBF_Consts =
  XDBF_MAGIC :: u32
  XDBF_VERSION :: u32
  XDBF_XSTR_MAGIC :: u32
  XDBF_XSTR_VERSION :: u32
  XDBF_XSTC_MAGIC :: u32
  XDBF_XSTC_VERSION :: u32
  XDBF_SPA_NAMESPACE_METADATA :: u16
  XDBF_SPA_NAMESPACE_IMAGE :: u16
  XDBF_SPA_NAMESPACE_STRING_TABLE :: u16
  XDBF_LANGUAGE_MAX :: int
  XDBF_ID_TITLE :: u16

definition XDBF_LANGUAGE_UNKNOWN :: int where "XDBF_LANGUAGE_UNKNOWN = 0"

definition XDBF_LANGUAGE_ENGLISH :: int where "XDBF_LANGUAGE_ENGLISH = 1"

text \<open>
  Collaborators: the system language (\<^verbatim>\<open>XboxLanguage::getXbox360Language\<close>), the
  line-ending conversion \<^verbatim>\<open>dos2unix\<close> and the PNG decoder \<^verbatim>\<open>RpPng::load\<close>. Strings
  are byte strings; an image is a handle.
\<close>

type_synonym rp_image = nat

record XDBF_Env =
  getXbox360Language :: int
  dos2unix :: "u8 list \<Rightarrow> u8 list"
  RpPng_load :: "u8 list \<Rightarrow> rp_image option"

text \<open>
  \<^verbatim>\<open>Xbox360_XDBF_Private\<close>. \<open>file_d\<close> is \<open>None\<close> once the file reference has been
  released. \<open>strTblIndexes\<close> and \<open>strTbls\<close> are arrays of \<^verbatim>\<open>XDBF_LANGUAGE_MAX\<close>
  elements; \<open>map_images\<close> maps resource ids to decoded images.
\<close>

record XDBF_Private =
  file_d :: "IRpFile option"
  isValid_d :: bool
  xdbfHeader :: XDBF_Header
  entryTable :: "XDBF_Entry list"
  data_offset :: u32
  m_langID :: int
  strTblIndexes :: "int list"
  strTbls :: "u8 list option list"
  map_images :: "u64 \<rightharpoonup> rp_image"

text \<open>
  File and memory operations of the container code, recorded in the order they happen.
\<close>

datatype xdbf_event = XRewind | XRead nat | XSeekAndRead int nat | XAlloc nat | XUnrefFile

text \<open>
  The failures of the load operations. In the source each of them is an early
  \<^verbatim>\<open>return nullptr\<close> (or an empty string); the constructors name the branch taken.
\<close>

datatype load_error =
    BadLanguage | NotOpen | NoStringTable | OutOfRangeSize | SeekReadError | InvalidMagic
  | NoEntryTable | ResourceNotFound | DecodeFailed

text \<open>\<^verbatim>\<open>Xbox360_XDBF::isRomSupported_static\<close>.\<close>

definition xdbf_isRomSupported_static :: "XDBF_Consts \<Rightarrow> bool \<Rightarrow> DetectInfo \<Rightarrow> int" where
  "xdbf_isRomSupported_static k le info =
     (if header_addr info \<noteq> 0 \<or> unat (header_size info) < sizeof_XDBF_Entry then - 1
      else
        let xdbfHeader = overlay_header le (header_pData info)
        in if magic xdbfHeader = cpu_to_be32 le (XDBF_MAGIC k)
              \<and> version xdbfHeader = cpu_to_be32 le (XDBF_VERSION k)
           then 0 else - 1)"

text \<open>
  \<^verbatim>\<open>Xbox360_XDBF_Private::initStrTblIndexes\<close>. The loop keeps a 16-bit signed index
  next to the iterator; the source relies on tables of fewer than 32768 entries.
\<close>

fun initStrTblIndexes_loop :: "XDBF_Consts \<Rightarrow> bool \<Rightarrow> XDBF_Entry list \<Rightarrow> 16 word \<Rightarrow> nat \<Rightarrow> int list
    \<Rightarrow> int list \<times> nat" where
  "initStrTblIndexes_loop k le [] idx total_n tbl = (tbl, total_n)"
| "initStrTblIndexes_loop k le (e # rest) idx total_n tbl =
     (if \<not> int total_n < XDBF_LANGUAGE_MAX k then (tbl, total_n)
      else if namespace_id e \<noteq> cpu_to_be16 le (XDBF_SPA_NAMESPACE_STRING_TABLE k)
      then initStrTblIndexes_loop k le rest (idx + 1) total_n tbl
      else
        let langID = be64_to_cpu le (resource_id e)
        in if uint langID \<ge> XDBF_LANGUAGE_MAX k
           then initStrTblIndexes_loop k le rest (idx + 1) total_n tbl
           else if tbl ! unat langID < 0
           then initStrTblIndexes_loop k le rest (idx + 1) (Suc total_n)
                  (tbl[unat langID := sint idx])
           else initStrTblIndexes_loop k le rest (idx + 1) total_n tbl)"

definition initStrTblIndexes :: "XDBF_Consts \<Rightarrow> bool \<Rightarrow> XDBF_Private \<Rightarrow> XDBF_Private" where
  "initStrTblIndexes k le d =
     (let cleared = replicate (nat (XDBF_LANGUAGE_MAX k)) (- 1)
      in if entryTable d = [] then d\<lparr>strTblIndexes := cleared\<rparr>
         else d\<lparr>strTblIndexes := fst (initStrTblIndexes_loop k le (entryTable d) 0 0 cleared)\<rparr>)"

text \<open>
  \<^verbatim>\<open>Xbox360_XDBF::init\<close>, called by the constructors when the file reference is not
  null. The two reads are sequential: the header at the position the rewind leaves, the
  entry table right behind the bytes the first read delivered.
\<close>

definition release_file :: "XDBF_Private \<Rightarrow> XDBF_Private" where
  "release_file d = d\<lparr>xdbfHeader := (xdbfHeader d)\<lparr>magic := 0\<rparr>, file_d := None\<rparr>"

definition xdbf_init :: "XDBF_Consts \<Rightarrow> bool \<Rightarrow> XDBF_Private \<Rightarrow> XDBF_Private \<times> xdbf_event list" where
  "xdbf_init k le d =
     (case file_d d of
        None \<Rightarrow> (d, [])
      | Some file \<Rightarrow>
          let pos = (if f_seek file 0 then 0 else f_pos file);
              hdr_bytes = file_read file pos sizeof_XDBF_Header;
              d1 = d\<lparr>xdbfHeader := overlay_header le (hdr_bytes @ replicate (sizeof_XDBF_Header - length hdr_bytes) 0)\<rparr>
          in if length hdr_bytes \<noteq> sizeof_XDBF_Header
             then (release_file d1, [XRewind, XRead sizeof_XDBF_Header, XUnrefFile])
             else
               let info = \<lparr>header_addr = 0, header_size = of_nat sizeof_XDBF_Header,
                           header_pData = hdr_bytes, ext = None, szFile = 0\<rparr>;
                   d2 = d1\<lparr>isValid_d := (xdbf_isRomSupported_static k le info \<ge> 0)\<rparr>
               in if \<not> isValid_d d2
                  then (release_file d2, [XRewind, XRead sizeof_XDBF_Header, XUnrefFile])
                  else
                    let h = xdbfHeader d2;
                        h' = h\<lparr>version := be32_to_cpu le (version h),
                               entry_table_length := be32_to_cpu le (entry_table_length h),
                               entry_count := be32_to_cpu le (entry_count h),
                               free_space_table_length := be32_to_cpu le (free_space_table_length h),
                               free_space_table_count := be32_to_cpu le (free_space_table_count h)\<rparr>;
                        d3 = d2\<lparr>xdbfHeader := h',
                                data_offset := of_nat (sizeof_XDBF_Header
                                  + unat (entry_table_length h') * sizeof_XDBF_Entry
                                  + unat (free_space_table_length h') * sizeof_XDBF_Free_Space_Entry)\<rparr>
                    in if entry_table_length h' \<ge> 1048576
                       then ((release_file d3)\<lparr>isValid_d := False\<rparr>,
                             [XRewind, XRead sizeof_XDBF_Header, XUnrefFile])
                       else
                         let entry_table_sz = unat (entry_table_length h') * sizeof_XDBF_Entry;
                             tbl_bytes = file_read file (pos + int (length hdr_bytes)) entry_table_sz
                         in if length tbl_bytes \<noteq> entry_table_sz
                            then ((release_file (d3\<lparr>entryTable := []\<rparr>))\<lparr>isValid_d := False\<rparr>,
                                  [XRewind, XRead sizeof_XDBF_Header, XAlloc entry_table_sz,
                                   XRead entry_table_sz, XUnrefFile])
                            else
                              (initStrTblIndexes k le
                                 (d3\<lparr>entryTable :=
                                       overlay_entries le (unat (entry_table_length h')) tbl_bytes\<rparr>),
                               [XRewind, XRead sizeof_XDBF_Header, XAlloc entry_table_sz,
                                XRead entry_table_sz]))"

text \<open>
  The constructors: the private state as \<^verbatim>\<open>Xbox360_XDBF_Private\<close>'s constructor leaves
  it, then \<^verbatim>\<open>init\<close> unless the file reference is null. The constructor does not
  initialise \<open>strTblIndexes\<close>; \<open>uninit\<close> is whatever the array holds.
\<close>

definition zero_header :: XDBF_Header where
  "zero_header = \<lparr>magic = 0, version = 0, entry_table_length = 0, entry_count = 0,
                   free_space_table_length = 0, free_space_table_count = 0\<rparr>"

definition Xbox360_XDBF_Private :: "XDBF_Consts \<Rightarrow> IRpFile option \<Rightarrow> int list \<Rightarrow> XDBF_Private" where
  "Xbox360_XDBF_Private k file uninit =
     \<lparr>file_d = file, isValid_d = False, xdbfHeader = zero_header, entryTable = [],
      data_offset = 0, m_langID = XDBF_LANGUAGE_UNKNOWN, strTblIndexes = uninit,
      strTbls = replicate (nat (XDBF_LANGUAGE_MAX k)) None, map_images = Map.empty\<rparr>"

definition Xbox360_XDBF :: "XDBF_Consts \<Rightarrow> bool \<Rightarrow> IRpFile option \<Rightarrow> int list
    \<Rightarrow> XDBF_Private \<times> xdbf_event list" where
  "Xbox360_XDBF k le file uninit = xdbf_init k le (Xbox360_XDBF_Private k file uninit)"

text \<open>
  \<^verbatim>\<open>Xbox360_XDBF_Private::loadStringTable\<close>. The result is the table or the reason of
  the failure, the state after the call, and what the call did. The index read from
  \<open>strTblIndexes\<close> is compared with the table size truncated to 16 bits.
\<close>

definition loadStringTable :: "XDBF_Consts \<Rightarrow> bool \<Rightarrow> XDBF_Private \<Rightarrow> int
    \<Rightarrow> (load_error + u8 list) \<times> XDBF_Private \<times> xdbf_event list" where
  "loadStringTable k le d langID =
     (if langID \<le> XDBF_LANGUAGE_UNKNOWN \<or> langID \<ge> XDBF_LANGUAGE_MAX k then (Inl BadLanguage, d, [])
      else case strTbls d ! nat langID of
        Some vec \<Rightarrow> (Inr vec, d, [])
      | None \<Rightarrow>
          (case file_d d of
             None \<Rightarrow> (Inl NotOpen, d, [])
           | Some file \<Rightarrow>
               if \<not> isValid_d d then (Inl NotOpen, d, [])
               else
                 let idx = strTblIndexes d ! nat langID
                 in if idx < 0 \<or> idx \<ge> int (length (entryTable d) mod 65536)
                    then (Inl NoStringTable, d, [])
                    else
                      let entry = entryTable d ! nat idx;
                          str_tbl_sz = unat (be32_to_cpu le (length_e entry))
                      in if str_tbl_sz \<le> sizeof_XDBF_XSTR_Header \<or> str_tbl_sz > 1024 * 1024
                         then (Inl OutOfRangeSize, d, [])
                         else
                           let str_tbl_addr = be32_to_cpu le (offset_e entry) + data_offset d;
                               vec = seekAndRead file (uint str_tbl_addr) str_tbl_sz;
                               ev = [XAlloc str_tbl_sz, XSeekAndRead (uint str_tbl_addr) str_tbl_sz]
                           in if length vec \<noteq> str_tbl_sz then (Inl SeekReadError, d, ev)
                              else if (host_word le (bytes_at 0 4 vec) :: u32)
                                        \<noteq> cpu_to_be32 le (XDBF_XSTR_MAGIC k)
                                      \<or> (host_word le (bytes_at 4 4 vec) :: u32)
                                        \<noteq> cpu_to_be32 le (XDBF_XSTR_VERSION k)
                              then (Inl InvalidMagic, d, ev)
                              else (Inr vec,
                                    d\<lparr>strTbls := (strTbls d)[nat langID := Some vec]\<rparr>, ev)))"

text \<open>
  The search loop of \<^verbatim>\<open>loadString\<close> over the records of a table, \<open>p\<close> being the offset
  of the current record in the buffer. A record header that starts inside the buffer and
  ends behind it is read past the end of the buffer: \<open>Overrun\<close>.
\<close>

datatype scan_out = Hit "u8 list" | Miss | Overrun

function scan_strings :: "bool \<Rightarrow> u8 list \<Rightarrow> u16 \<Rightarrow> nat \<Rightarrow> scan_out" where
  "scan_strings le vec string_id p =
     (if p < length vec then
        if length vec < p + sizeof_XDBF_XSTR_Entry_Header then Overrun
        else
          let len = unat (be16_to_cpu le (host_word le (bytes_at (p + 2) 2 vec)))
          in if (host_word le (bytes_at p 2 vec) :: u16) = string_id
             then (if p + sizeof_XDBF_XSTR_Entry_Header + len \<le> length vec
                   then Hit (bytes_at (p + sizeof_XDBF_XSTR_Entry_Header) len vec) else Miss)
             else scan_strings le vec string_id (p + sizeof_XDBF_XSTR_Entry_Header + len)
      else Miss)"
  by pat_completeness auto

termination
  by (relation "measure (\<lambda>(le, vec, string_id, p). length vec - p)")
     (auto simp: sizeof_XDBF_XSTR_Entry_Header_def)

text \<open>
  \<^verbatim>\<open>Xbox360_XDBF_Private::loadString\<close>. The string is \<open>None\<close> when the search ran over
  the end of the buffer.
\<close>

definition loadString :: "XDBF_Consts \<Rightarrow> bool \<Rightarrow> XDBF_Env \<Rightarrow> XDBF_Private \<Rightarrow> int \<Rightarrow> u16
    \<Rightarrow> u8 list option \<times> XDBF_Private" where
  "loadString k le env d langID string_id =
     (if langID < 0 \<or> langID \<ge> XDBF_LANGUAGE_MAX k then (Some [], d)
      else
        case (case strTbls d ! nat langID of
                Some vec \<Rightarrow> (Inr vec, d)
              | None \<Rightarrow> (case loadStringTable k le d langID of (r, d', ev) \<Rightarrow> (r, d'))) of
          (Inl e, d') \<Rightarrow> (Some [], d')
        | (Inr vec, d') \<Rightarrow>
            let sid = (if le then cpu_to_be16 le string_id else string_id)
            in (case scan_strings le vec sid sizeof_XDBF_XSTR_Header of
                  Hit s \<Rightarrow> (Some (dos2unix env s), d')
                | Miss \<Rightarrow> (Some [], d')
                | Overrun \<Rightarrow> (None, d')))"

text \<open>
  \<^verbatim>\<open>Xbox360_XDBF_Private::getLanguageID\<close>, in the three parts of the source: the system
  language, the default language of the \<^verbatim>\<open>XSTC\<close> resource, English. The language is
  \<open>None\<close> when the source dereferences a null file pointer.
\<close>

record XDBF_XSTC =
  xstc_magic :: u32
  xstc_version :: u32
  xstc_size :: u32
  default_language :: u32

definition overlay_xstc :: "bool \<Rightarrow> u8 list \<Rightarrow> XDBF_XSTC" where
  "overlay_xstc le bs =
     \<lparr>xstc_magic = host_word le (bytes_at 0 4 bs), xstc_version = host_word le (bytes_at 4 4 bs),
      xstc_size = host_word le (bytes_at 8 4 bs), default_language = host_word le (bytes_at 12 4 bs)\<rparr>"

definition getLanguageID_english :: "XDBF_Consts \<Rightarrow> bool \<Rightarrow> XDBF_Private \<Rightarrow> int \<Rightarrow> int
    \<Rightarrow> int option \<times> XDBF_Private" where
  "getLanguageID_english k le d langID langID_xstc =
     (if langID \<noteq> XDBF_LANGUAGE_ENGLISH \<and> langID_xstc \<noteq> XDBF_LANGUAGE_ENGLISH
      then (case loadStringTable k le d XDBF_LANGUAGE_ENGLISH of
              (Inr vec, d', ev) \<Rightarrow> (Some XDBF_LANGUAGE_ENGLISH, d'\<lparr>m_langID := XDBF_LANGUAGE_ENGLISH\<rparr>)
            | (Inl e, d', ev) \<Rightarrow> (Some XDBF_LANGUAGE_UNKNOWN, d'))
      else (Some XDBF_LANGUAGE_UNKNOWN, d))"

definition getLanguageID_xstc :: "XDBF_Consts \<Rightarrow> bool \<Rightarrow> XDBF_Private \<Rightarrow> int
    \<Rightarrow> int option \<times> XDBF_Private" where
  "getLanguageID_xstc k le d langID =
     (case findResource le (entryTable d) (XDBF_SPA_NAMESPACE_METADATA k) (ucast (XDBF_XSTC_MAGIC k)) of
        None \<Rightarrow> (Some XDBF_LANGUAGE_UNKNOWN, d)
      | Some entry \<Rightarrow>
          let addr = be32_to_cpu le (offset_e entry) + data_offset d
          in if unat (be32_to_cpu le (length_e entry)) \<noteq> sizeof_XDBF_XSTC
             then (Some XDBF_LANGUAGE_UNKNOWN, d)
             else
               (case file_d d of
                  None \<Rightarrow> (None, d)
                | Some file \<Rightarrow>
                    let bytes = seekAndRead file (uint addr) sizeof_XDBF_XSTC;
                        xstc = overlay_xstc le bytes
                    in if length bytes \<noteq> sizeof_XDBF_XSTC then (Some XDBF_LANGUAGE_UNKNOWN, d)
                       else if xstc_magic xstc \<noteq> cpu_to_be32 le (XDBF_XSTC_MAGIC k)
                               \<or> xstc_version xstc \<noteq> cpu_to_be32 le (XDBF_XSTC_VERSION k)
                               \<or> xstc_size xstc \<noteq> cpu_to_be32 le (of_nat (sizeof_XDBF_XSTC - 4))
                       then (Some XDBF_LANGUAGE_UNKNOWN, d)
                       else
                         let langID_xstc = sint (be32_to_cpu le (default_language xstc))
                         in if langID_xstc \<noteq> langID
                            then
                              if langID_xstc \<le> XDBF_LANGUAGE_UNKNOWN
                                 \<or> langID_xstc \<ge> XDBF_LANGUAGE_MAX k
                              then (Some XDBF_LANGUAGE_UNKNOWN, d)
                              else
                                (case loadStringTable k le d langID_xstc of
                                   (Inr vec, d', ev) \<Rightarrow> (Some langID_xstc, d'\<lparr>m_langID := langID_xstc\<rparr>)
                                 | (Inl e, d', ev) \<Rightarrow> getLanguageID_english k le d' langID langID_xstc)
                            else getLanguageID_english k le d langID langID_xstc))"

definition getLanguageID :: "XDBF_Consts \<Rightarrow> bool \<Rightarrow> XDBF_Env \<Rightarrow> XDBF_Private
    \<Rightarrow> int option \<times> XDBF_Private" where
  "getLanguageID k le env d =
     (if m_langID d \<noteq> XDBF_LANGUAGE_UNKNOWN then (Some (m_langID d), d)
      else
        let langID = getXbox360Language env
        in if langID > XDBF_LANGUAGE_UNKNOWN \<and> langID < XDBF_LANGUAGE_MAX k
           then (case loadStringTable k le d langID of
                   (Inr vec, d', ev) \<Rightarrow> (Some langID, d'\<lparr>m_langID := langID\<rparr>)
                 | (Inl e, d', ev) \<Rightarrow> getLanguageID_xstc k le d' langID)
           else getLanguageID_xstc k le d langID)"

text \<open>
  \<^verbatim>\<open>Xbox360_XDBF::getString\<close> for the title property: the string of the language
  \<^verbatim>\<open>getLanguageID\<close> settles on.
\<close>

definition getString_title :: "XDBF_Consts \<Rightarrow> bool \<Rightarrow> XDBF_Env \<Rightarrow> XDBF_Private
    \<Rightarrow> u8 list option \<times> XDBF_Private" where
  "getString_title k le env d =
     (if XDBF_ID_TITLE k = 0 then (Some [], d)
      else case getLanguageID k le env d of
             (None, d') \<Rightarrow> (None, d')
           | (Some langID, d') \<Rightarrow> loadString k le env d' langID (XDBF_ID_TITLE k))"

text \<open>
  The string of one cell of the achievements and avatar awards lists
  (\<^verbatim>\<open>addFields_achievements\<close>, \<^verbatim>\<open>addFields_avatarAwards\<close>). A language has rows only if
  it has a string table index; a string missing in the language of the row is taken
  from the English table.
\<close>

definition row_string :: "XDBF_Consts \<Rightarrow> bool \<Rightarrow> XDBF_Env \<Rightarrow> XDBF_Private \<Rightarrow> int \<Rightarrow> u16
    \<Rightarrow> u8 list option \<times> XDBF_Private" where
  "row_string k le env d langID name_id =
     (case loadString k le env d langID name_id of
        (Some desc, d') \<Rightarrow>
          if desc = [] \<and> langID \<noteq> XDBF_LANGUAGE_ENGLISH
          then loadString k le env d' XDBF_LANGUAGE_ENGLISH name_id
          else (Some desc, d')
      | (None, d') \<Rightarrow> (None, d'))"

definition has_rows :: "XDBF_Private \<Rightarrow> int \<Rightarrow> bool" where
  "has_rows d langID \<longleftrightarrow> strTblIndexes d ! nat langID \<ge> 0"

text \<open>
  \<^verbatim>\<open>Xbox360_XDBF_Private::loadImage\<close>, with the decoder as a collaborator.
\<close>

definition loadImage :: "XDBF_Consts \<Rightarrow> bool \<Rightarrow> XDBF_Env \<Rightarrow> XDBF_Private \<Rightarrow> u64
    \<Rightarrow> (load_error + rp_image) \<times> XDBF_Private \<times> xdbf_event list" where
  "loadImage k le env d image_id =
     (case map_images d image_id of
        Some img \<Rightarrow> (Inr img, d, [])
      | None \<Rightarrow>
          if entryTable d = [] then (Inl NoEntryTable, d, [])
          else
            (case file_d d of
               None \<Rightarrow> (Inl NotOpen, d, [])
             | Some file \<Rightarrow>
                 if \<not> isValid_d d then (Inl NotOpen, d, [])
                 else
                   (case findResource le (entryTable d) (XDBF_SPA_NAMESPACE_IMAGE k) image_id of
                      None \<Rightarrow> (Inl ResourceNotFound, d, [])
                    | Some entry \<Rightarrow>
                        let addr = be32_to_cpu le (offset_e entry) + data_offset d;
                            len = unat (be32_to_cpu le (length_e entry))
                        in if len < 16 \<or> len > 1024 * 1024 then (Inl OutOfRangeSize, d, [])
                           else
                             let png_buf = seekAndRead file (uint addr) len;
                                 ev = [XAlloc len, XSeekAndRead (uint addr) len]
                             in if length png_buf \<noteq> len then (Inl SeekReadError, d, ev)
                                else
                                  (case RpPng_load env png_buf of
                                     None \<Rightarrow> (Inl DecodeFailed, d, ev)
                                   | Some img \<Rightarrow>
                                       (Inr img, d\<lparr>map_images := (map_images d)(image_id \<mapsto> img)\<rparr>, ev)))))"

section \<open>Concrete containers\<close>

text \<open>
  The values \<^verbatim>\<open>xdbf_structs.h\<close> gives to the parameters: the magic numbers \<^verbatim>\<open>'XDBF'\<close>,
  \<^verbatim>\<open>'XSTR'\<close> and \<^verbatim>\<open>'XSTC'\<close>, the versions, the namespaces and the thirteen language ids.
\<close>

definition xdbf_structs_h :: XDBF_Consts where
  "xdbf_structs_h =
     \<lparr>XDBF_MAGIC = 0x58444246, XDBF_VERSION = 0x00010000,
      XDBF_XSTR_MAGIC = 0x58535452, XDBF_XSTR_VERSION = 1,
      XDBF_XSTC_MAGIC = 0x58535443, XDBF_XSTC_VERSION = 1,
      XDBF_SPA_NAMESPACE_METADATA = 1, XDBF_SPA_NAMESPACE_IMAGE = 2,
      XDBF_SPA_NAMESPACE_STRING_TABLE = 3, XDBF_LANGUAGE_MAX = 13, XDBF_ID_TITLE = 0x8000\<rparr>"

text \<open>
  A file whose header carries the right magic and version and declares an entry table
  of exactly 1,048,576 entries.
\<close>

definition ceiling_header :: "u8 list" where
  "ceiling_header =
     [0x58, 0x44, 0x42, 0x46,  0x00, 0x01, 0x00, 0x00,  0x00, 0x10, 0x00, 0x00,
      0x00, 0x10, 0x00, 0x00,  0x00, 0x00, 0x00, 0x00,  0x00, 0x00, 0x00, 0x00]"

definition ceiling_file :: IRpFile where
  "ceiling_file = mem_file ''ceiling.xdbf'' 24 ceiling_header"

section \<open>The XDBF resource container: notions used to state the claims\<close>

text \<open>
  The length an entry declares for its resource, and the entry the language index
  gives for the string table of a language.
\<close>

definition declared_length :: "bool \<Rightarrow> XDBF_Entry \<Rightarrow> nat" where
  "declared_length le entry = unat (be32_to_cpu le (length_e entry))"

definition string_table_entry :: "XDBF_Private \<Rightarrow> int \<Rightarrow> XDBF_Entry" where
  "string_table_entry d langID = entryTable d ! nat (strTblIndexes d ! nat langID)"

text \<open>
  The load of the string table of \<open>langID\<close> gets as far as the size check: the language
  is one of the container's languages, the table is not cached, and the language index
  points into the entry table.
\<close>

definition reaches_string_table :: "XDBF_Consts \<Rightarrow> XDBF_Private \<Rightarrow> int \<Rightarrow> bool" where
  "reaches_string_table k d langID \<longleftrightarrow>
     XDBF_LANGUAGE_UNKNOWN < langID \<and> langID < XDBF_LANGUAGE_MAX k
     \<and> strTbls d ! nat langID = None
     \<and> 0 \<le> strTblIndexes d ! nat langID
     \<and> strTblIndexes d ! nat langID < int (length (entryTable d) mod 65536)"

text \<open>
  A container with two entries: an English string table that declares 2 MiB, and an
  image with id \<open>0x8000\<close> that declares 8 bytes.
\<close>

definition oversize_bytes :: "u8 list" where
  "oversize_bytes =
     [0x58, 0x44, 0x42, 0x46,  0x00, 0x01, 0x00, 0x00,  0x00, 0x00, 0x00, 0x02,
      0x00, 0x00, 0x00, 0x02,  0x00, 0x00, 0x00, 0x00,  0x00, 0x00, 0x00, 0x00,
      0x00, 0x03,  0x00, 0x00, 0x00, 0x00, 0x00, 0x00, 0x00, 0x01,
      0x00, 0x00, 0x00, 0x00,  0x00, 0x20, 0x00, 0x00,
      0x00, 0x02,  0x00, 0x00, 0x00, 0x00, 0x00, 0x00, 0x80, 0x00,
      0x00, 0x00, 0x00, 0x00,  0x00, 0x00, 0x00, 0x08]"

definition oversize_file :: IRpFile where
  "oversize_file = mem_file ''oversize.xdbf'' 60 oversize_bytes"

definition oversize_xdbf :: XDBF_Private where
  "oversize_xdbf =
     \<lparr>file_d = Some oversize_file, isValid_d = True,
      xdbfHeader = \<lparr>magic = cpu_to_be32 True 0x58444246, version = 0x00010000,
                    entry_table_length = 2, entry_count = 2,
                    free_space_table_length = 0, free_space_table_count = 0\<rparr>,
      entryTable =
        [\<lparr>namespace_id = cpu_to_be16 True 3, resource_id = cpu_to_be64 True 1,
          offset_e = cpu_to_be32 True 0, length_e = cpu_to_be32 True 0x200000\<rparr>,
         \<lparr>namespace_id = cpu_to_be16 True 2, resource_id = cpu_to_be64 True 0x8000,
          offset_e = cpu_to_be32 True 0, length_e = cpu_to_be32 True 8\<rparr>],
      data_offset = 60, m_langID = XDBF_LANGUAGE_UNKNOWN,
      strTblIndexes = [- 1, 0, - 1, - 1, - 1, - 1, - 1, - 1, - 1, - 1, - 1, - 1, - 1],
      strTbls = replicate 13 None, map_images = Map.empty\<rparr>"

definition no_decoder :: XDBF_Env where
  "no_decoder = \<lparr>getXbox360Language = 1, dos2unix = filter (\<lambda>b. b \<noteq> 0x0D),
                 RpPng_load = (\<lambda>buf. None)\<rparr>"

section \<open>The XDBF resource container: the language of a title lookup\<close>

text \<open>
  The chain of languages, stated separately from the code. A language is usable when its
  string table loads. The default-language marker is the value of a well-formed
  \<^verbatim>\<open>XSTC\<close> resource: found in the metadata namespace, of the right length, read in
  full, with the right magic, version and size field.
\<close>

definition try_language :: "XDBF_Consts \<Rightarrow> bool \<Rightarrow> XDBF_Private \<Rightarrow> int \<Rightarrow> XDBF_Private option" where
  "try_language k le d langID =
     (case loadStringTable k le d langID of
        (Inr vec, d', ev) \<Rightarrow> Some (d'\<lparr>m_langID := langID\<rparr>)
      | (Inl e, d', ev) \<Rightarrow> None)"

definition table_loads :: "XDBF_Consts \<Rightarrow> bool \<Rightarrow> XDBF_Private \<Rightarrow> int \<Rightarrow> bool" where
  "table_loads k le d langID \<longleftrightarrow> try_language k le d langID \<noteq> None"

definition default_marker :: "XDBF_Consts \<Rightarrow> bool \<Rightarrow> XDBF_Private \<Rightarrow> int option" where
  "default_marker k le d =
     (case findResource le (entryTable d) (XDBF_SPA_NAMESPACE_METADATA k) (ucast (XDBF_XSTC_MAGIC k)) of
        None \<Rightarrow> None
      | Some entry \<Rightarrow>
          if declared_length le entry \<noteq> sizeof_XDBF_XSTC then None
          else
            (case file_d d of
               None \<Rightarrow> None
             | Some file \<Rightarrow>
                 let bytes = seekAndRead file (uint (be32_to_cpu le (offset_e entry) + data_offset d))
                               sizeof_XDBF_XSTC;
                     xstc = overlay_xstc le bytes
                 in if length bytes = sizeof_XDBF_XSTC
                       \<and> xstc_magic xstc = cpu_to_be32 le (XDBF_XSTC_MAGIC k)
                       \<and> xstc_version xstc = cpu_to_be32 le (XDBF_XSTC_VERSION k)
                       \<and> xstc_size xstc = cpu_to_be32 le (of_nat (sizeof_XDBF_XSTC - 4))
                    then Some (sint (be32_to_cpu le (default_language xstc)))
                    else None))"

definition first_loadable :: "XDBF_Consts \<Rightarrow> bool \<Rightarrow> XDBF_Private \<Rightarrow> int list \<Rightarrow> int" where
  "first_loadable k le d ls =
     (case List.find (table_loads k le d) ls of Some l \<Rightarrow> l | None \<Rightarrow> XDBF_LANGUAGE_UNKNOWN)"

definition lang_in_range :: "XDBF_Consts \<Rightarrow> int \<Rightarrow> bool" where
  "lang_in_range k l \<longleftrightarrow> XDBF_LANGUAGE_UNKNOWN < l \<and> l < XDBF_LANGUAGE_MAX k"

definition language_chain :: "XDBF_Consts \<Rightarrow> bool \<Rightarrow> XDBF_Env \<Rightarrow> XDBF_Private \<Rightarrow> int" where
  "language_chain k le env d =
     (let requested = getXbox360Language env
      in if table_loads k le d requested then requested
         else case default_marker k le d of
                None \<Rightarrow> XDBF_LANGUAGE_UNKNOWN
              | Some m \<Rightarrow>
                  if m \<noteq> requested \<and> \<not> lang_in_range k m then XDBF_LANGUAGE_UNKNOWN
                  else first_loadable k le d [m, XDBF_LANGUAGE_ENGLISH])"

text \<open>The string with id \<open>string_id\<close> in a loaded table.\<close>

definition string_in :: "bool \<Rightarrow> XDBF_Env \<Rightarrow> u8 list \<Rightarrow> u16 \<Rightarrow> u8 list option" where
  "string_in le env vec string_id =
     (case scan_strings le vec (if le then cpu_to_be16 le string_id else string_id)
             sizeof_XDBF_XSTR_Header of
        Hit s \<Rightarrow> Some (dos2unix env s)
      | Miss \<Rightarrow> Some []
      | Overrun \<Rightarrow> None)"

text \<open>
  A container with a Japanese and an English string table and a default-language
  marker naming \<open>deflang\<close>. The Japanese table holds the string 1, the English table the
  title (string \<open>0x8000\<close>): the title is present only in English.
\<close>

definition spa_bytes :: "u8 \<Rightarrow> u8 list" where
  "spa_bytes deflang =
     [0x58, 0x44, 0x42, 0x46,  0x00, 0x01, 0x00, 0x00,  0x00, 0x00, 0x00, 0x03,
      0x00, 0x00, 0x00, 0x03,  0x00, 0x00, 0x00, 0x00,  0x00, 0x00, 0x00, 0x00,
      0x00, 0x03,  0x00, 0x00, 0x00, 0x00, 0x00, 0x00, 0x00, 0x02,
      0x00, 0x00, 0x00, 0x00,  0x00, 0x00, 0x00, 0x13,
      0x00, 0x03,  0x00, 0x00, 0x00, 0x00, 0x00, 0x00, 0x00, 0x01,
      0x00, 0x00, 0x00, 0x13,  0x00, 0x00, 0x00, 0x14,
      0x00, 0x01,  0x00, 0x00, 0x00, 0x00, 0x58, 0x53, 0x54, 0x43,
      0x00, 0x00, 0x00, 0x27,  0x00, 0x00, 0x00, 0x10,
      0x58, 0x53, 0x54, 0x52,  0x00, 0x00, 0x00, 0x01,  0x00, 0x00, 0x00, 0x05,  0x00, 0x01,
      0x00, 0x01,  0x00, 0x01,  0x4A,
      0x58, 0x53, 0x54, 0x52,  0x00, 0x00, 0x00, 0x01,  0x00, 0x00, 0x00, 0x06,  0x00, 0x01,
      0x80, 0x00,  0x00, 0x02,  0x48, 0x69,
      0x58, 0x53, 0x54, 0x43,  0x00, 0x00, 0x00, 0x01,  0x00, 0x00, 0x00, 0x0C,
      0x00, 0x00, 0x00, deflang]"

definition spa_file :: "u8 \<Rightarrow> IRpFile" where
  "spa_file deflang = mem_file ''spa.xdbf'' 133 (spa_bytes deflang)"

definition spa_xdbf :: "u8 \<Rightarrow> XDBF_Private" where
  "spa_xdbf deflang =
     \<lparr>file_d = Some (spa_file deflang), isValid_d = True,
      xdbfHeader = \<lparr>magic = cpu_to_be32 True 0x58444246, version = 0x00010000,
                    entry_table_length = 3, entry_count = 3,
                    free_space_table_length = 0, free_space_table_count = 0\<rparr>,
      entryTable =
        [\<lparr>namespace_id = cpu_to_be16 True 3, resource_id = cpu_to_be64 True 2,
          offset_e = cpu_to_be32 True 0, length_e = cpu_to_be32 True 19\<rparr>,
         \<lparr>namespace_id = cpu_to_be16 True 3, resource_id = cpu_to_be64 True 1,
          offset_e = cpu_to_be32 True 19, length_e = cpu_to_be32 True 20\<rparr>,
         \<lparr>namespace_id = cpu_to_be16 True 1, resource_id = cpu_to_be64 True 0x58535443,
          offset_e = cpu_to_be32 True 39, length_e = cpu_to_be32 True 16\<rparr>],
      data_offset = 78, m_langID = XDBF_LANGUAGE_UNKNOWN,
      strTblIndexes = [- 1, 1, 0, - 1, - 1, - 1, - 1, - 1, - 1, - 1, - 1, - 1, - 1],
      strTbls = replicate 13 None, map_images = Map.empty\<rparr>"

definition jp_table :: "u8 list" where
  "jp_table =
     [0x58, 0x53, 0x54, 0x52,  0x00, 0x00, 0x00, 0x01,  0x00, 0x00, 0x00, 0x05,  0x00, 0x01,
      0x00, 0x01,  0x00, 0x01,  0x4A]"

definition en_table :: "u8 list" where
  "en_table =
     [0x58, 0x53, 0x54, 0x52,  0x00, 0x00, 0x00, 0x01,  0x00, 0x00, 0x00, 0x06,  0x00, 0x01,
      0x80, 0x00,  0x00, 0x02,  0x48, 0x69]"

text \<open>A system whose language is German (language 3).\<close>

definition german_system :: XDBF_Env where
  "german_system = \<lparr>getXbox360Language = 3, dos2unix = filter (\<lambda>b. b \<noteq> 0x0D),
                     RpPng_load = (\<lambda>buf. None)\<rparr>"



section \<open>Properties of the entry-table lookup\<close>

lemma find_if_le_length: "find_if p xs \<le> length xs"
  by (induction xs) auto

lemma find_if_end_iff: "find_if p xs = length xs \<longleftrightarrow> (\<forall>x \<in> set xs. \<not> p x)"
proof (induction xs)
  case Nil
  show ?case by simp
next
  case (Cons x xs)
  show ?case using Cons.IH by auto
qed

lemma find_if_hit: "find_if p xs < length xs \<Longrightarrow> p (xs ! find_if p xs)"
  by (induction xs) (auto split: if_splits)

lemma find_if_first: "j < find_if p xs \<Longrightarrow> \<not> p (xs ! j)"
proof (induction xs arbitrary: j)
  case Nil
  then show ?case by simp
next
  case (Cons x xs)
  then show ?case by (cases j) (auto split: if_splits)
qed

lemma find_if_unique:
  assumes "i < length xs" and "p (xs ! i)" and "\<forall>j<i. \<not> p (xs ! j)"
  shows "find_if p xs = i"
proof -
  have "\<not> (\<forall>x \<in> set xs. \<not> p x)"
    using assms(1,2) nth_mem by blast
  then have lt: "find_if p xs < length xs"
    using find_if_end_iff [of p xs] find_if_le_length [of p xs] by linarith
  have "\<not> i < find_if p xs"
    using find_if_first [of i p xs] assms(2) by blast
  moreover have "\<not> find_if p xs < i"
    using assms(3) find_if_hit [OF lt] by blast
  ultimately show ?thesis by linarith
qed

lemma findResource_query:
  "findResource le tbl ns_id res_id =
     (if tbl = [] then None
      else if find_if (key_matches le ns_id res_id) tbl \<noteq> length tbl
           then Some (tbl ! find_if (key_matches le ns_id res_id) tbl) else None)"
proof -
  have "key_matches le ns_id res_id =
          (\<lambda>p. namespace_id p = (if le then cpu_to_be16 le ns_id else ns_id)
                 \<and> resource_id p = (if le then cpu_to_be64 le res_id else res_id))"
    by (simp add: fun_eq_iff key_matches_def cpu_to_be16_def cpu_to_be64_def)
  then show ?thesis
    by (simp add: findResource_def Let_def)
qed

text \<open>
  Claim C4. For every entry table and every query \<open>(namespace_id, resource_id)\<close>, the
  lookup returns the first entry in table order whose stored (file byte order) key
  equals the canonicalised query key: it returns entry \<open>e\<close> exactly when \<open>e\<close> sits at
  an index \<open>i\<close> that matches in both fields while no earlier index does. It returns
  nothing exactly when no entry matches in both fields (an entry that agrees in only
  one field does not count), and in particular on an empty table. Only the query is
  swapped; the table is an unchanged input of the function.
\<close>

theorem findResource_first_match:
  "(findResource le tbl ns_id res_id = Some e \<longleftrightarrow>
      (\<exists>i<length tbl. e = tbl ! i \<and> key_matches le ns_id res_id (tbl ! i)
                       \<and> (\<forall>j<i. \<not> key_matches le ns_id res_id (tbl ! j))))
   \<and> (findResource le tbl ns_id res_id = None \<longleftrightarrow>
      (\<forall>p \<in> set tbl. \<not> (namespace_id p = cpu_to_be16 le ns_id
                           \<and> resource_id p = cpu_to_be64 le res_id)))
   \<and> findResource le [] ns_id res_id = None"
proof (intro conjI)
  let ?P = "key_matches le ns_id res_id"
  let ?k = "find_if ?P tbl"
  show "findResource le tbl ns_id res_id = Some e \<longleftrightarrow>
      (\<exists>i<length tbl. e = tbl ! i \<and> ?P (tbl ! i) \<and> (\<forall>j<i. \<not> ?P (tbl ! j)))"
  proof
    assume found: "findResource le tbl ns_id res_id = Some e"
    then have ne: "?k \<noteq> length tbl" and e: "e = tbl ! ?k"
      by (auto simp: findResource_query split: if_splits)
    from ne have lt: "?k < length tbl"
      using find_if_le_length [of ?P tbl] by linarith
    from lt e find_if_hit [OF lt] find_if_first [of _ ?P tbl]
    show "\<exists>i<length tbl. e = tbl ! i \<and> ?P (tbl ! i) \<and> (\<forall>j<i. \<not> ?P (tbl ! j))"
      by blast
  next
    assume "\<exists>i<length tbl. e = tbl ! i \<and> ?P (tbl ! i) \<and> (\<forall>j<i. \<not> ?P (tbl ! j))"
    then obtain i where i: "i < length tbl" "e = tbl ! i" "?P (tbl ! i)"
        "\<forall>j<i. \<not> ?P (tbl ! j)"
      by blast
    then have "?k = i" by (simp add: find_if_unique)
    with i show "findResource le tbl ns_id res_id = Some e"
      by (auto simp: findResource_query)
  qed
  show "findResource le tbl ns_id res_id = None \<longleftrightarrow>
      (\<forall>p \<in> set tbl. \<not> (namespace_id p = cpu_to_be16 le ns_id
                           \<and> resource_id p = cpu_to_be64 le res_id))"
    using find_if_end_iff [of ?P tbl]
    by (auto simp: findResource_query key_matches_def)
  show "findResource le [] ns_id res_id = None"
    by (simp add: findResource_def)
qed

theorem findResource_first_match_witness:
  "findResource True demo_table 1 0x8000 = Some (demo_table ! 2)
   \<and> findResource True demo_table 2 0x8001 = None
   \<and> findResource True demo_table 3 0x8000 = None"
proof -
  have sw: "bswap16 1 = 0x100" "bswap16 2 = 0x200" "bswap16 3 = 0x300"
      "bswap64 0x8000 = 0x0080000000000000" "bswap64 0x8001 = 0x0180000000000000"
    by (simp_all add: bswap16_def bswap64_def)
  have k0: "\<not> key_matches True 1 0x8000 (demo_table ! 0)"
    and k1: "\<not> key_matches True 1 0x8000 (demo_table ! 1)"
    and k2: "key_matches True 1 0x8000 (demo_table ! 2)"
    by (simp_all add: key_matches_def demo_table_def cpu_to_be16_def cpu_to_be64_def sw)
  have k: "\<forall>j<2. \<not> key_matches True 1 0x8000 (demo_table ! j)"
  proof (intro allI impI)
    fix j :: nat assume "j < 2"
    then have "j = 0 \<or> j = 1" by arith
    then show "\<not> key_matches True 1 0x8000 (demo_table ! j)" using k0 k1 by auto
  qed
  have l: "2 < length demo_table" by (simp add: demo_table_def)
  have ex: "\<exists>i<length demo_table. demo_table ! 2 = demo_table ! i
      \<and> key_matches True 1 0x8000 (demo_table ! i)
      \<and> (\<forall>j<i. \<not> key_matches True 1 0x8000 (demo_table ! j))"
    using l k2 k by (intro exI [of _ 2]) simp
  have n1: "\<forall>p \<in> set demo_table. \<not> (namespace_id p = cpu_to_be16 True 2 \<and> resource_id p = cpu_to_be64 True 0x8001)"
    by (simp add: demo_table_def cpu_to_be16_def cpu_to_be64_def sw)
  have n2: "\<forall>p \<in> set demo_table. \<not> (namespace_id p = cpu_to_be16 True 3 \<and> resource_id p = cpu_to_be64 True 0x8000)"
    by (simp add: demo_table_def cpu_to_be16_def cpu_to_be64_def sw)
  have a: "findResource True demo_table 1 0x8000 = Some (demo_table ! 2)"
    using findResource_first_match [where le=True and tbl=demo_table and ns_id=1 and res_id="0x8000" and e="demo_table ! 2"] ex by simp
  have b: "findResource True demo_table 2 0x8001 = None"
    using findResource_first_match [where le=True and tbl=demo_table and ns_id=2 and res_id="0x8001"] n1 by simp
  have c: "findResource True demo_table 3 0x8000 = None"
    using findResource_first_match [where le=True and tbl=demo_table and ns_id=3 and res_id="0x8000"] n2 by simp
  show ?thesis using a b c by simp
qed

section \<open>Properties of the dispatcher\<close>

lemma fst_prepend [simp]: "fst (prepend evs r) = fst r"
  and snd_prepend [simp]: "snd (prepend evs r) = evs @ snd r"
  by (simp_all add: prepend_def)

lemma try_fns_events:
  "ev \<in> set (snd (try_fns st i fns f info)) \<Longrightarrow> event_descr ev = Some (st, i)"
  by (auto simp: try_fns_def Let_def split: if_splits)

lemma try_fns_Some_iff:
  "fst (try_fns st i fns f info) = Some rd \<longleftrightarrow> accepts f info fns \<and> rd = newRomData fns f"
  by (auto simp: try_fns_def accepts_def Let_def)

lemma try_fns_None_iff:
  "fst (try_fns st i fns f info) = None \<longleftrightarrow> \<not> accepts f info fns"
  by (auto simp: try_fns_def accepts_def Let_def)

lemma try_fns_accept:
  "accepts f info fns \<Longrightarrow> fst (try_fns st i fns f info) = Some (newRomData fns f)"
  by (simp add: try_fns_Some_iff)

lemma accepts_valid: "accepts f info fns \<Longrightarrow> isValid (newRomData fns f)"
  by (simp add: accepts_def)

lemma at_index_here: "has_attrs attrs fns \<Longrightarrow> at_index attrs (fns # rest) i0 i0"
  by (simp add: at_index_def)

lemma at_index_later: "at_index attrs rest (Suc i0) i \<Longrightarrow> at_index attrs (fns # rest) i0 i"
proof -
  assume a: "at_index attrs rest (Suc i0) i"
  then have "i - i0 = Suc (i - Suc i0)" by (auto simp: at_index_def)
  with a show ?thesis by (auto simp: at_index_def)
qed

lemma scan_magic_skip:
  "\<not> has_attrs attrs fns \<Longrightarrow>
   scan_magic le f attrs info i (fns # rest) = scan_magic le f attrs info (Suc i) rest"
  by (simp add: has_attrs_def)

lemma scan_magic_bad:
  "has_attrs attrs fns \<Longrightarrow> magic_eq le info fns = None \<Longrightarrow>
   scan_magic le f attrs info i (fns # rest) = (BadIndex, [])"
  by (simp add: has_attrs_def magic_eq_def)

lemma scan_magic_nomatch:
  "has_attrs attrs fns \<Longrightarrow> magic_eq le info fns = Some False \<Longrightarrow>
   scan_magic le f attrs info i (fns # rest) =
     prepend [MagicCompare i] (scan_magic le f attrs info (Suc i) rest)"
  by (auto simp: has_attrs_def magic_eq_def)

lemma scan_magic_reject:
  "has_attrs attrs fns \<Longrightarrow> magic_eq le info fns = Some True \<Longrightarrow> \<not> accepts f info fns \<Longrightarrow>
   scan_magic le f attrs info i (fns # rest) =
     prepend (MagicCompare i # snd (try_fns Magic i fns f info))
       (scan_magic le f attrs info (Suc i) rest)"
proof -
  assume a: "has_attrs attrs fns" "magic_eq le info fns = Some True" "\<not> accepts f info fns"
  obtain evs where t: "try_fns Magic i fns f info = (None, evs)"
    using a(3) try_fns_None_iff [of Magic i fns f info]
    by (cases "try_fns Magic i fns f info") auto
  from a(1,2) show ?thesis
    by (auto simp: has_attrs_def magic_eq_def t)
qed

lemma scan_magic_accept:
  "has_attrs attrs fns \<Longrightarrow> magic_eq le info fns = Some True \<Longrightarrow> accepts f info fns \<Longrightarrow>
   scan_magic le f attrs info i (fns # rest) =
     (Found i (newRomData fns f), MagicCompare i # snd (try_fns Magic i fns f info))"
proof -
  assume a: "has_attrs attrs fns" "magic_eq le info fns = Some True" "accepts f info fns"
  obtain evs where t: "try_fns Magic i fns f info = (Some (newRomData fns f), evs)"
    using try_fns_accept [OF a(3), of Magic i]
    by (cases "try_fns Magic i fns f info") auto
  from a(1,2) show ?thesis
    by (auto simp: has_attrs_def magic_eq_def t)
qed

lemma magic_step_cases:
  obtains (skip) "\<not> has_attrs attrs fns"
  | (bad) "has_attrs attrs fns" "magic_eq le info fns = None"
  | (nomatch) "has_attrs attrs fns" "magic_eq le info fns = Some False"
  | (reject) "has_attrs attrs fns" "magic_eq le info fns = Some True" "\<not> accepts f info fns"
  | (accept) "has_attrs attrs fns" "magic_eq le info fns = Some True" "accepts f info fns"
  by (cases "magic_eq le info fns") auto

declare scan_magic.simps(2) [simp del]

lemma scan_magic_events:
  "ev \<in> set (snd (scan_magic le f attrs info i0 tbl)) \<Longrightarrow> event_descr ev = Some (st, i) \<Longrightarrow>
   st = Magic \<and> at_index attrs tbl i0 i"
proof (induction tbl arbitrary: i0)
  case Nil
  then show ?case by simp
next
  case (Cons fns rest)
  have later: "st = Magic \<and> at_index attrs (fns # rest) i0 i"
    if "ev \<in> set (snd (scan_magic le f attrs info (Suc i0) rest))"
    using Cons.IH [OF that Cons.prems(2)] at_index_later [of attrs rest i0 i fns] by simp
  have here: "st = Magic \<and> at_index attrs (fns # rest) i0 i"
    if "has_attrs attrs fns" "ev = MagicCompare i0 \<or> ev \<in> set (snd (try_fns Magic i0 fns f info))"
  proof -
    from that(2) have "event_descr ev = Some (Magic, i0)"
      using try_fns_events [of ev Magic i0 fns f info] by auto
    with Cons.prems(2) have "st = Magic" "i = i0" by simp_all
    then show ?thesis using at_index_here [OF that(1), of rest i0] by simp
  qed
  show ?case
  proof (cases rule: magic_step_cases [where attrs=attrs and fns=fns and le=le and info=info and f=f])
    case skip
    with Cons.prems(1) later show ?thesis by (simp add: scan_magic_skip)
  next
    case bad
    with Cons.prems(1) show ?thesis by (simp add: scan_magic_bad)
  next
    case nomatch
    with Cons.prems(1) later here show ?thesis by (auto simp: scan_magic_nomatch)
  next
    case reject
    with Cons.prems(1) later here show ?thesis by (auto simp: scan_magic_reject)
  next
    case accept
    with Cons.prems(1) here show ?thesis by (auto simp: scan_magic_accept)
  qed
qed

lemma scan_magic_found:
  "fst (scan_magic le f attrs info i0 tbl) = Found i rd \<Longrightarrow>
   at_index attrs tbl i0 i \<and> rd = newRomData (tbl ! (i - i0)) f \<and> isValid rd"
proof (induction tbl arbitrary: i0)
  case Nil
  then show ?case by simp
next
  case (Cons fns rest)
  have later: "at_index attrs (fns # rest) i0 i \<and> rd = newRomData ((fns # rest) ! (i - i0)) f \<and> isValid rd"
    if "fst (scan_magic le f attrs info (Suc i0) rest) = Found i rd"
  proof -
    from Cons.IH [OF that] have a: "at_index attrs rest (Suc i0) i"
      and r: "rd = newRomData (rest ! (i - Suc i0)) f" "isValid rd" by auto
    from a have "i - i0 = Suc (i - Suc i0)" by (auto simp: at_index_def)
    with a r show ?thesis by (simp add: at_index_later)
  qed
  show ?case
  proof (cases rule: magic_step_cases [where attrs=attrs and fns=fns and le=le and info=info and f=f])
    case skip
    with Cons.prems have "fst (scan_magic le f attrs info (Suc i0) rest) = Found i rd"
      by (simp add: scan_magic_skip)
    then show ?thesis by (rule later)
  next
    case bad
    with Cons.prems show ?thesis by (simp add: scan_magic_bad)
  next
    case nomatch
    with Cons.prems have "fst (scan_magic le f attrs info (Suc i0) rest) = Found i rd"
      by (simp add: scan_magic_nomatch)
    then show ?thesis by (rule later)
  next
    case reject
    with Cons.prems have "fst (scan_magic le f attrs info (Suc i0) rest) = Found i rd"
      by (simp add: scan_magic_reject)
    then show ?thesis by (rule later)
  next
    case accept
    with Cons.prems have e: "i = i0" "rd = newRomData fns f"
      by (simp_all add: scan_magic_accept)
    show ?thesis unfolding e
      using accepts_valid [OF accept(3)] at_index_here [OF accept(1), of rest i0] by simp
  qed
qed

lemma scan_header_skip:
  "\<not> has_attrs attrs fns \<Longrightarrow>
   scan_header f attrs info i (fns # rest) = scan_header f attrs info (Suc i) rest"
  by (simp add: has_attrs_def)

lemma scan_header_brk:
  "has_attrs attrs fns \<Longrightarrow> header_window f info fns = Brk \<Longrightarrow>
   scan_header f attrs info i (fns # rest) = ((NotFound, info), [])"
  by (simp add: has_attrs_def)

lemma scan_header_cont:
  "has_attrs attrs fns \<Longrightarrow> header_window f info fns = Skip info' evs \<Longrightarrow>
   scan_header f attrs info i (fns # rest) = prepend evs (scan_header f attrs info' (Suc i) rest)"
  by (simp add: has_attrs_def)

lemma scan_header_reject:
  "has_attrs attrs fns \<Longrightarrow> header_window f info fns = Ready info' evs \<Longrightarrow>
   \<not> accepts f info' fns \<Longrightarrow>
   scan_header f attrs info i (fns # rest) =
     prepend (evs @ snd (try_fns Header i fns f info')) (scan_header f attrs info' (Suc i) rest)"
proof -
  assume a: "has_attrs attrs fns" "header_window f info fns = Ready info' evs"
    "\<not> accepts f info' fns"
  obtain evs2 where t: "try_fns Header i fns f info' = (None, evs2)"
    using a(3) try_fns_None_iff [of Header i fns f info']
    by (cases "try_fns Header i fns f info'") auto
  from a(1,2) show ?thesis by (simp add: has_attrs_def t)
qed

lemma scan_header_accept:
  "has_attrs attrs fns \<Longrightarrow> header_window f info fns = Ready info' evs \<Longrightarrow>
   accepts f info' fns \<Longrightarrow>
   scan_header f attrs info i (fns # rest) =
     ((Found i (newRomData fns f), info'), evs @ snd (try_fns Header i fns f info'))"
proof -
  assume a: "has_attrs attrs fns" "header_window f info fns = Ready info' evs"
    "accepts f info' fns"
  obtain evs2 where t: "try_fns Header i fns f info' = (Some (newRomData fns f), evs2)"
    using try_fns_accept [OF a(3), of Header i]
    by (cases "try_fns Header i fns f info'") auto
  from a(1,2) show ?thesis by (simp add: has_attrs_def t)
qed

lemma header_step_cases:
  obtains (skip) "\<not> has_attrs attrs fns"
  | (brk) "has_attrs attrs fns" "header_window f info fns = Brk"
  | (cont) info' evs where "has_attrs attrs fns" "header_window f info fns = Skip info' evs"
  | (reject) info' evs where "has_attrs attrs fns" "header_window f info fns = Ready info' evs"
      "\<not> accepts f info' fns"
  | (accept) info' evs where "has_attrs attrs fns" "header_window f info fns = Ready info' evs"
      "accepts f info' fns"
  by (cases "header_window f info fns") auto

declare scan_header.simps(2) [simp del]

lemma header_window_events:
  assumes "header_window f info fns = Skip info' evs \<or> header_window f info fns = Ready info' evs"
  shows "\<forall>ev \<in> set evs. (\<exists>p. ev = Seek p) \<or> (\<exists>n. ev = Read n)"
  using assms
  by (auto simp: header_window_def Let_def split: if_splits option.splits)

lemma header_window_keeps:
  assumes "header_window f info fns = Skip info' evs \<or> header_window f info fns = Ready info' evs"
  shows "ext info' = ext info \<and> szFile info' = szFile info"
  using assms
  by (auto simp: header_window_def Let_def split: if_splits option.splits)

lemma scan_header_events:
  "ev \<in> set (snd (scan_header f attrs info i0 tbl)) \<Longrightarrow> event_descr ev = Some (st, i) \<Longrightarrow>
   st = Header \<and> at_index attrs tbl i0 i"
proof (induction tbl arbitrary: i0 info)
  case Nil
  then show ?case by simp
next
  case (Cons fns rest)
  have later: "st = Header \<and> at_index attrs (fns # rest) i0 i"
    if "ev \<in> set (snd (scan_header f attrs info' (Suc i0) rest))" for info'
    using Cons.IH [OF that Cons.prems(2)] at_index_later [of attrs rest i0 i fns] by simp
  have here: "st = Header \<and> at_index attrs (fns # rest) i0 i"
    if "has_attrs attrs fns" "ev \<in> set (snd (try_fns Header i0 fns f info'))" for info'
  proof -
    from that(2) have "event_descr ev = Some (Header, i0)" by (rule try_fns_events)
    with Cons.prems(2) have "st = Header" "i = i0" by simp_all
    then show ?thesis using at_index_here [OF that(1), of rest i0] by simp
  qed
  have win: False if "header_window f info fns = Skip info' evs \<or> header_window f info fns = Ready info' evs"
      "ev \<in> set evs" for info' evs
    using header_window_events [OF that(1)] that(2) Cons.prems(2) by auto
  show ?case
  proof (cases rule: header_step_cases [where attrs=attrs and fns=fns and info=info and f=f])
    case skip
    with Cons.prems(1) later show ?thesis by (simp add: scan_header_skip)
  next
    case brk
    with Cons.prems(1) show ?thesis by (simp add: scan_header_brk)
  next
    case (cont info' evs)
    with Cons.prems(1) later [of info'] win [of info' evs] show ?thesis
      by (auto simp: scan_header_cont)
  next
    case (reject info' evs)
    with Cons.prems(1) later [of info'] here [of info'] win [of info' evs] show ?thesis
      by (auto simp: scan_header_reject)
  next
    case (accept info' evs)
    with Cons.prems(1) here [of info'] win [of info' evs] show ?thesis
      by (auto simp: scan_header_accept)
  qed
qed

lemma scan_header_found:
  "fst (fst (scan_header f attrs info i0 tbl)) = Found i rd \<Longrightarrow>
   at_index attrs tbl i0 i \<and> rd = newRomData (tbl ! (i - i0)) f \<and> isValid rd"
proof (induction tbl arbitrary: i0 info)
  case Nil
  then show ?case by simp
next
  case (Cons fns rest)
  have later: "at_index attrs (fns # rest) i0 i \<and> rd = newRomData ((fns # rest) ! (i - i0)) f \<and> isValid rd"
    if "fst (fst (scan_header f attrs info' (Suc i0) rest)) = Found i rd" for info'
  proof -
    from Cons.IH [OF that] have a: "at_index attrs rest (Suc i0) i"
      and r: "rd = newRomData (rest ! (i - Suc i0)) f" "isValid rd" by auto
    from a have "i - i0 = Suc (i - Suc i0)" by (auto simp: at_index_def)
    with a r show ?thesis by (simp add: at_index_later)
  qed
  show ?case
  proof (cases rule: header_step_cases [where attrs=attrs and fns=fns and info=info and f=f])
    case skip
    with Cons.prems have "fst (fst (scan_header f attrs info (Suc i0) rest)) = Found i rd"
      by (simp add: scan_header_skip)
    then show ?thesis by (rule later)
  next
    case brk
    with Cons.prems show ?thesis by (simp add: scan_header_brk)
  next
    case (cont info' evs)
    with Cons.prems have "fst (fst (scan_header f attrs info' (Suc i0) rest)) = Found i rd"
      by (simp add: scan_header_cont)
    then show ?thesis by (rule later)
  next
    case (reject info' evs)
    with Cons.prems have "fst (fst (scan_header f attrs info' (Suc i0) rest)) = Found i rd"
      by (simp add: scan_header_reject)
    then show ?thesis by (rule later)
  next
    case (accept info' evs)
    with Cons.prems have e: "i = i0" "rd = newRomData fns f"
      by (simp_all add: scan_header_accept)
    show ?thesis unfolding e
      using accepts_valid [OF accept(3)] at_index_here [OF accept(1), of rest i0] by simp
  qed
qed

lemma scan_header_keeps:
  "ext (snd (fst (scan_header f attrs info i0 tbl))) = ext info
   \<and> szFile (snd (fst (scan_header f attrs info i0 tbl))) = szFile info"
proof (induction tbl arbitrary: i0 info)
  case Nil
  show ?case by simp
next
  case (Cons fns rest)
  show ?case
  proof (cases rule: header_step_cases [where attrs=attrs and fns=fns and info=info and f=f])
    case skip
    then show ?thesis using Cons.IH [of info "Suc i0"] by (simp add: scan_header_skip)
  next
    case brk
    then show ?thesis by (simp add: scan_header_brk)
  next
    case (cont info' evs)
    then show ?thesis using Cons.IH [of info' "Suc i0"] header_window_keeps [of f info fns info' evs]
      by (simp add: scan_header_cont)
  next
    case (reject info' evs)
    then show ?thesis using Cons.IH [of info' "Suc i0"] header_window_keeps [of f info fns info' evs]
      by (simp add: scan_header_reject)
  next
    case (accept info' evs)
    then show ?thesis using header_window_keeps [of f info fns info' evs]
      by (simp add: scan_header_accept)
  qed
qed

lemma scan_footer_skip:
  "\<not> has_attrs attrs fns \<or> \<not> vb_ext info \<Longrightarrow>
   scan_footer f attrs info rf i (fns # rest) = scan_footer f attrs info rf (Suc i) rest"
  by (auto simp: has_attrs_def vb_ext_def split: option.splits)

lemma scan_footer_fail:
  "has_attrs attrs fns \<Longrightarrow> vb_ext info \<Longrightarrow> footer_window f info rf = (None, evs) \<Longrightarrow>
   scan_footer f attrs info rf i (fns # rest) = (ReturnNull, evs)"
  by (auto simp: has_attrs_def vb_ext_def split: option.splits)

lemma scan_footer_reject:
  "has_attrs attrs fns \<Longrightarrow> vb_ext info \<Longrightarrow> footer_window f info rf = (Some info', evs) \<Longrightarrow>
   \<not> accepts f info' fns \<Longrightarrow>
   scan_footer f attrs info rf i (fns # rest) =
     prepend (evs @ snd (try_fns Footer i fns f info')) (scan_footer f attrs info' True (Suc i) rest)"
proof -
  assume a: "has_attrs attrs fns" "vb_ext info" "footer_window f info rf = (Some info', evs)"
    "\<not> accepts f info' fns"
  obtain evs2 where t: "try_fns Footer i fns f info' = (None, evs2)"
    using a(4) try_fns_None_iff [of Footer i fns f info']
    by (cases "try_fns Footer i fns f info'") auto
  from a(1,2,3) show ?thesis
    by (auto simp: has_attrs_def vb_ext_def t split: option.splits)
qed

lemma scan_footer_accept:
  "has_attrs attrs fns \<Longrightarrow> vb_ext info \<Longrightarrow> footer_window f info rf = (Some info', evs) \<Longrightarrow>
   accepts f info' fns \<Longrightarrow>
   scan_footer f attrs info rf i (fns # rest) =
     (Found i (newRomData fns f), evs @ snd (try_fns Footer i fns f info'))"
proof -
  assume a: "has_attrs attrs fns" "vb_ext info" "footer_window f info rf = (Some info', evs)"
    "accepts f info' fns"
  obtain evs2 where t: "try_fns Footer i fns f info' = (Some (newRomData fns f), evs2)"
    using try_fns_accept [OF a(4), of Footer i]
    by (cases "try_fns Footer i fns f info'") auto
  from a(1,2,3) show ?thesis
    by (auto simp: has_attrs_def vb_ext_def t split: option.splits)
qed

lemma footer_step_cases:
  obtains (skip) "\<not> has_attrs attrs fns \<or> \<not> vb_ext info"
  | (fail) evs where "has_attrs attrs fns" "vb_ext info" "footer_window f info rf = (None, evs)"
  | (reject) info' evs where "has_attrs attrs fns" "vb_ext info"
      "footer_window f info rf = (Some info', evs)" "\<not> accepts f info' fns"
  | (accept) info' evs where "has_attrs attrs fns" "vb_ext info"
      "footer_window f info rf = (Some info', evs)" "accepts f info' fns"
proof (cases "footer_window f info rf")
  case (Pair r evs)
  then show ?thesis using that by (cases r) auto
qed

declare scan_footer.simps(2) [simp del]

lemma footer_window_read:
  "footer_window f info True = (Some info, [])"
  by (simp add: footer_window_def)

lemma footer_window_events:
  assumes "footer_window f info rf = (r, evs)"
  shows "evs = [] \<or> (\<not> rf \<and> szFile info > footer_size
            \<and> evs = [SeekAndRead (uint (word_of_int (szFile info - footer_size) :: u32)) (nat footer_size)])"
  using assms by (auto simp: footer_window_def Let_def split: if_splits)

lemma footer_window_keeps:
  assumes "footer_window f info rf = (Some info', evs)"
  shows "ext info' = ext info \<and> szFile info' = szFile info"
  using assms by (auto simp: footer_window_def Let_def split: if_splits)

lemma vb_ext_cong: "ext info' = ext info \<Longrightarrow> vb_ext info' = vb_ext info"
  by (simp add: vb_ext_def)

lemma try_fns_no_read: "ev \<in> set (snd (try_fns st i fns f info)) \<Longrightarrow> \<not> is_footer_read ev"
  by (auto simp: try_fns_def Let_def split: if_splits)

lemma scan_footer_events:
  "ev \<in> set (snd (scan_footer f attrs info rf i0 tbl)) \<Longrightarrow> event_descr ev = Some (st, i) \<Longrightarrow>
   st = Footer \<and> at_index attrs tbl i0 i"
proof (induction tbl arbitrary: i0 info rf)
  case Nil
  then show ?case by simp
next
  case (Cons fns rest)
  have later: "st = Footer \<and> at_index attrs (fns # rest) i0 i"
    if "ev \<in> set (snd (scan_footer f attrs info' rf' (Suc i0) rest))" for info' rf'
    using Cons.IH [OF that Cons.prems(2)] at_index_later [of attrs rest i0 i fns] by simp
  have here: "st = Footer \<and> at_index attrs (fns # rest) i0 i"
    if "has_attrs attrs fns" "ev \<in> set (snd (try_fns Footer i0 fns f info'))" for info'
  proof -
    from that(2) have "event_descr ev = Some (Footer, i0)" by (rule try_fns_events)
    with Cons.prems(2) have "st = Footer" "i = i0" by simp_all
    then show ?thesis using at_index_here [OF that(1), of rest i0] by simp
  qed
  have win: False if "footer_window f info rf = (r, evs)" "ev \<in> set evs" for r evs
    using footer_window_events [OF that(1)] that(2) Cons.prems(2) by auto
  show ?case
  proof (cases rule: footer_step_cases [where attrs=attrs and fns=fns and info=info and f=f and rf=rf])
    case skip
    with Cons.prems(1) later show ?thesis by (simp add: scan_footer_skip)
  next
    case (fail evs)
    with Cons.prems(1) win [of None evs] show ?thesis by (simp add: scan_footer_fail)
  next
    case (reject info' evs)
    with Cons.prems(1) later [of info' True] here [of info'] win [of "Some info'" evs] show ?thesis
      by (auto simp: scan_footer_reject)
  next
    case (accept info' evs)
    with Cons.prems(1) here [of info'] win [of "Some info'" evs] show ?thesis
      by (auto simp: scan_footer_accept)
  qed
qed

lemma scan_footer_found:
  "fst (scan_footer f attrs info rf i0 tbl) = Found i rd \<Longrightarrow>
   at_index attrs tbl i0 i \<and> rd = newRomData (tbl ! (i - i0)) f \<and> isValid rd"
proof (induction tbl arbitrary: i0 info rf)
  case Nil
  then show ?case by simp
next
  case (Cons fns rest)
  have later: "at_index attrs (fns # rest) i0 i \<and> rd = newRomData ((fns # rest) ! (i - i0)) f \<and> isValid rd"
    if "fst (scan_footer f attrs info' rf' (Suc i0) rest) = Found i rd" for info' rf'
  proof -
    from Cons.IH [OF that] have a: "at_index attrs rest (Suc i0) i"
      and r: "rd = newRomData (rest ! (i - Suc i0)) f" "isValid rd" by auto
    from a have "i - i0 = Suc (i - Suc i0)" by (auto simp: at_index_def)
    with a r show ?thesis by (simp add: at_index_later)
  qed
  show ?case
  proof (cases rule: footer_step_cases [where attrs=attrs and fns=fns and info=info and f=f and rf=rf])
    case skip
    with Cons.prems have "fst (scan_footer f attrs info rf (Suc i0) rest) = Found i rd"
      by (simp add: scan_footer_skip)
    then show ?thesis by (rule later)
  next
    case (fail evs)
    with Cons.prems show ?thesis by (simp add: scan_footer_fail)
  next
    case (reject info' evs)
    with Cons.prems have "fst (scan_footer f attrs info' True (Suc i0) rest) = Found i rd"
      by (simp add: scan_footer_reject)
    then show ?thesis by (rule later)
  next
    case (accept info' evs)
    with Cons.prems have e: "i = i0" "rd = newRomData fns f"
      by (simp_all add: scan_footer_accept)
    show ?thesis unfolding e
      using accepts_valid [OF accept(4)] at_index_here [OF accept(1), of rest i0] by simp
  qed
qed

text \<open>Once the flag is set, the footer loop reads nothing.\<close>

lemma scan_footer_read_done:
  "ev \<in> set (snd (scan_footer f attrs info True i0 tbl)) \<Longrightarrow> \<not> is_footer_read ev"
proof (induction tbl arbitrary: i0 info)
  case Nil
  then show ?case by simp
next
  case (Cons fns rest)
  show ?case
  proof (cases rule: footer_step_cases [where attrs=attrs and fns=fns and info=info and f=f and rf=True])
    case skip
    with Cons.prems Cons.IH [of info "Suc i0"] show ?thesis by (simp add: scan_footer_skip)
  next
    case (fail evs)
    then show ?thesis by (simp add: footer_window_read)
  next
    case (reject info' evs)
    then have "info' = info" "evs = []" by (simp_all add: footer_window_read)
    with reject Cons.prems Cons.IH [of info "Suc i0"] try_fns_no_read [of ev Footer i0 fns f info]
    show ?thesis by (auto simp: scan_footer_reject)
  next
    case (accept info' evs)
    then have "info' = info" "evs = []" by (simp_all add: footer_window_read)
    with accept Cons.prems try_fns_no_read [of ev Footer i0 fns f info]
    show ?thesis by (auto simp: scan_footer_accept)
  qed
qed

lemma filter_none: "(\<And>x. x \<in> set xs \<Longrightarrow> \<not> P x) \<Longrightarrow> filter P xs = []"
  by (induction xs) auto

lemma scan_footer_read_once:
  "length (filter is_footer_read (snd (scan_footer f attrs info rf i0 tbl))) \<le> 1"
proof (induction tbl arbitrary: i0)
  case Nil
  show ?case by simp
next
  case (Cons fns rest)
  have after: "filter is_footer_read (snd (scan_footer f attrs info' True (Suc i0) rest)) = []" for info'
    by (rule filter_none) (rule scan_footer_read_done)
  have tr: "filter is_footer_read (snd (try_fns Footer i0 fns f info')) = []" for info'
    by (rule filter_none) (rule try_fns_no_read)
  have win: "length (filter is_footer_read evs) \<le> 1" if "footer_window f info rf = (r, evs)" for r evs
    using footer_window_events [OF that] by auto
  show ?case
  proof (cases rule: footer_step_cases [where attrs=attrs and fns=fns and info=info and f=f and rf=rf])
    case skip
    with Cons.IH [of "Suc i0"] show ?thesis by (simp add: scan_footer_skip)
  next
    case (fail evs)
    with win [of None evs] show ?thesis by (simp add: scan_footer_fail)
  next
    case (reject info' evs)
    with win [of "Some info'" evs] after [of info'] tr [of info'] show ?thesis
      by (simp add: scan_footer_reject)
  next
    case (accept info' evs)
    with win [of "Some info'" evs] tr [of info'] show ?thesis
      by (simp add: scan_footer_accept)
  qed
qed

text \<open>A footer read implies a candidate: matching extension, attributes, size.\<close>

lemma scan_footer_read_only_if:
  "ev \<in> set (snd (scan_footer f attrs info rf i0 tbl)) \<Longrightarrow> is_footer_read ev \<Longrightarrow>
   vb_ext info \<and> (\<exists>fns \<in> set tbl. has_attrs attrs fns) \<and> szFile info > footer_size \<and> \<not> rf"
proof (induction tbl arbitrary: i0)
  case Nil
  then show ?case by simp
next
  case (Cons fns rest)
  have tr: False if "ev \<in> set (snd (try_fns Footer i0 fns f info'))" for info'
    using try_fns_no_read [OF that] Cons.prems(2) by simp
  have after: False if "ev \<in> set (snd (scan_footer f attrs info' True (Suc i0) rest))" for info'
    using scan_footer_read_done [OF that] Cons.prems(2) by simp
  have win: "szFile info > footer_size \<and> \<not> rf" if "footer_window f info rf = (r, evs)" "ev \<in> set evs" for r evs
    using footer_window_events [OF that(1)] that(2) by auto
  show ?case
  proof (cases rule: footer_step_cases [where attrs=attrs and fns=fns and info=info and f=f and rf=rf])
    case skip
    with Cons.prems Cons.IH [of "Suc i0"] show ?thesis by (auto simp: scan_footer_skip)
  next
    case (fail evs)
    with Cons.prems(1) win [of None evs] show ?thesis by (auto simp: scan_footer_fail)
  next
    case (reject info' evs)
    with Cons.prems(1) win [of "Some info'" evs] tr [of info'] after [of info'] show ?thesis
      by (auto simp: scan_footer_reject)
  next
    case (accept info' evs)
    with Cons.prems(1) win [of "Some info'" evs] tr [of info'] show ?thesis
      by (auto simp: scan_footer_accept)
  qed
qed

lemma be_u32_byte0: "(ucast (be_u32 b3 b2 b1 b0) :: u8) = b0"
  unfolding be_u32_def
  by (rule bit_word_eqI) (auto simp: bit_simps dest: bit_imp_le_length)

lemma be_u32_byte1: "(ucast (drop_bit 8 (be_u32 b3 b2 b1 b0)) :: u8) = b1"
  unfolding be_u32_def
  by (rule bit_word_eqI) (auto simp: bit_simps dest: bit_imp_le_length)

lemma be_u32_byte2: "(ucast (drop_bit 16 (be_u32 b3 b2 b1 b0)) :: u8) = b2"
  unfolding be_u32_def
  by (rule bit_word_eqI) (auto simp: bit_simps dest: bit_imp_le_length)

lemma be_u32_byte3: "(ucast (drop_bit 24 (be_u32 b3 b2 b1 b0)) :: u8) = b3"
  unfolding be_u32_def
  by (rule bit_word_eqI) (auto simp: bit_simps dest: bit_imp_le_length)

lemma bswap32_be_u32: "bswap32 (be_u32 b3 b2 b1 b0) = be_u32 b0 b1 b2 b3"
  by (simp add: bswap32_def be_u32_byte0 be_u32_byte1 be_u32_byte2 be_u32_byte3)

lemma load_u32_be:
  "load_u32 le buf k = Some w \<Longrightarrow> be32_at buf (4 * k) = Some (be32_to_cpu le w)"
  by (auto simp: load_u32_def be32_at_def be32_to_cpu_def bswap32_be_u32 split: if_splits)

lemma magic_eq_spec:
  assumes "unat (address fns) mod 4 = 0" and "unat (address fns) + 4 \<le> 4352"
    and "4352 \<le> length (header_pData info)"
  shows "magic_eq le info fns
           = Some (be32_at (header_pData info) (unat (address fns)) = Some (size_f fns))"
proof -
  let ?k = "unat (address fns) div 4"
  from assms(1) have k: "4 * ?k = unat (address fns)" by presburger
  with assms(2,3) have "4 * ?k + 4 \<le> length (header_pData info)" by linarith
  then obtain w where w: "load_u32 le (header_pData info) ?k = Some w"
    by (simp add: load_u32_def)
  from load_u32_be [OF w] k
  have "be32_at (header_pData info) (unat (address fns)) = Some (be32_to_cpu le w)" by simp
  with w show ?thesis by (auto simp: magic_eq_def)
qed

lemma find_append_cases:
  "List.find P (xs @ ys) = (case List.find P xs of None \<Rightarrow> List.find P ys | Some x \<Rightarrow> Some x)"
  by (induction xs) auto

lemma scan_magic_refines:
  assumes "magic_table_ok tbl" and "4352 \<le> length (header_pData info)"
  shows "result_of Magic (fst (scan_magic le f attrs info i tbl))
           = first_accepted f (magic_visits info attrs i tbl)"
  using assms(1)
proof (induction tbl arbitrary: i)
  case Nil
  show ?case by (simp add: first_accepted_def)
next
  case (Cons fns rest)
  from Cons.prems have ok: "unat (address fns) mod 4 = 0" "unat (address fns) + 4 \<le> 4352"
    and okr: "magic_table_ok rest"
    by (simp_all add: magic_table_ok_def)
  note me = magic_eq_spec [OF ok assms(2), of le]
  note IH = Cons.IH [OF okr, of "Suc i"]
  show ?case
  proof (cases rule: magic_step_cases [where attrs=attrs and fns=fns and le=le and info=info and f=f])
    case skip
    then show ?thesis using IH by (simp add: scan_magic_skip magic_check_def)
  next
    case bad
    with me show ?thesis by simp
  next
    case nomatch
    with me have "\<not> magic_check info attrs fns" by (simp add: magic_check_def)
    with nomatch show ?thesis using IH by (simp add: scan_magic_nomatch)
  next
    case reject
    with me have mc: "magic_check info attrs fns" by (simp add: magic_check_def)
    from reject(3) have "\<not> accepted f (Magic, i, fns, info)" by (simp add: accepted_def)
    with reject mc show ?thesis using IH
      by (simp add: scan_magic_reject first_accepted_def)
  next
    case accept
    with me have mc: "magic_check info attrs fns" by (simp add: magic_check_def)
    from accept(3) have "accepted f (Magic, i, fns, info)" by (simp add: accepted_def)
    with accept mc show ?thesis
      by (simp add: scan_magic_accept first_accepted_def)
  qed
qed

lemma scan_header_refines:
  "result_of Header (fst (fst (scan_header f attrs info i tbl)))
     = first_accepted f (fst (header_visits f attrs info i tbl))
   \<and> (List.find (accepted f) (fst (header_visits f attrs info i tbl)) = None \<longrightarrow>
        snd (fst (scan_header f attrs info i tbl)) = snd (header_visits f attrs info i tbl))"
proof (induction tbl arbitrary: i info)
  case Nil
  show ?case by (simp add: first_accepted_def)
next
  case (Cons fns rest)
  show ?case
  proof (cases rule: header_step_cases [where attrs=attrs and fns=fns and info=info and f=f])
    case skip
    then show ?thesis using Cons.IH [of info "Suc i"] by (simp add: scan_header_skip)
  next
    case brk
    then show ?thesis by (simp add: scan_header_brk first_accepted_def)
  next
    case (cont info' evs)
    then show ?thesis using Cons.IH [of info' "Suc i"] by (simp add: scan_header_cont)
  next
    case (reject info' evs)
    from reject(3) have "\<not> accepted f (Header, i, fns, info')" by (simp add: accepted_def)
    with reject show ?thesis using Cons.IH [of info' "Suc i"]
      by (simp add: scan_header_reject first_accepted_def)
  next
    case (accept info' evs)
    from accept(3) have "accepted f (Header, i, fns, info')" by (simp add: accepted_def)
    with accept show ?thesis
      by (simp add: scan_header_accept first_accepted_def)
  qed
qed

lemma scan_footer_refines:
  "result_of Footer (fst (scan_footer f attrs info rf i tbl))
     = first_accepted f (footer_visits f attrs info rf i tbl)"
proof (induction tbl arbitrary: i info rf)
  case Nil
  show ?case by (simp add: first_accepted_def)
next
  case (Cons fns rest)
  show ?case
  proof (cases rule: footer_step_cases [where attrs=attrs and fns=fns and info=info and f=f and rf=rf])
    case skip
    then show ?thesis using Cons.IH [of info rf "Suc i"] by (auto simp: scan_footer_skip)
  next
    case (fail evs)
    then show ?thesis by (simp add: scan_footer_fail first_accepted_def)
  next
    case (reject info' evs)
    from reject(4) have "\<not> accepted f (Footer, i, fns, info')" by (simp add: accepted_def)
    with reject show ?thesis using Cons.IH [of info' True "Suc i"]
      by (simp add: scan_footer_reject first_accepted_def)
  next
    case (accept info' evs)
    from accept(4) have "accepted f (Footer, i, fns, info')" by (simp add: accepted_def)
    with accept show ?thesis
      by (simp add: scan_footer_accept first_accepted_def)
  qed
qed

lemma scan_magic_in_bounds:
  assumes "magic_table_ok tbl" and "4352 \<le> length (header_pData info)"
  shows "fst (scan_magic le f attrs info i tbl) \<noteq> BadIndex"
  using assms(1)
proof (induction tbl arbitrary: i)
  case Nil
  show ?case by simp
next
  case (Cons fns rest)
  from Cons.prems have ok: "unat (address fns) mod 4 = 0" "unat (address fns) + 4 \<le> 4352"
    and okr: "magic_table_ok rest"
    by (simp_all add: magic_table_ok_def)
  note me = magic_eq_spec [OF ok assms(2), of le]
  note IH = Cons.IH [OF okr, of "Suc i"]
  show ?case
  proof (cases rule: magic_step_cases [where attrs=attrs and fns=fns and le=le and info=info and f=f])
    case skip
    then show ?thesis using IH by (simp add: scan_magic_skip)
  next
    case bad
    with me show ?thesis by simp
  next
    case nomatch
    then show ?thesis using IH by (simp add: scan_magic_nomatch)
  next
    case reject
    then show ?thesis using IH by (simp add: scan_magic_reject)
  next
    case accept
    then show ?thesis by (simp add: scan_magic_accept)
  qed
qed

lemma length_file_read: "length (file_read f pos n) \<le> n"
  by (simp add: file_read_def)

lemma first_read_size0:
  "(of_nat (length (first_read f)) :: u32) = 0 \<longleftrightarrow> first_read f = []"
proof -
  have "length (first_read f) \<le> 4352" by (simp add: first_read_def length_file_read)
  then have "length (first_read f) mod 2 ^ 32 = length (first_read f)" by simp
  then have "unat (of_nat (length (first_read f)) :: u32) = length (first_read f)"
    by (simp add: unat_of_nat)
  moreover have "unat (0 :: u32) = 0" by simp
  ultimately show ?thesis by (metis length_0_conv of_nat_0_eq_iff semiring_1_class.of_nat_0)
qed

lemma create_unfold:
  "create le env cat stack f attrs =
     (if first_read f = [] then (Null, [FileSize, Rewind, Read 4352])
      else if paired_valid env f
      then (Handler FromPair (the (openDreamcastVMSandVMI env f)), [FileSize, Rewind, Read 4352, OpenPair])
      else prepend ([FileSize, Rewind, Read 4352] @ (if is_dc_ext env f then [OpenPair] else []))
             (staged le cat f attrs (initial_info env stack f)))"
proof -
  have i: "\<lparr>header_addr = 0, header_size = of_nat (length (first_read f)),
      header_pData = buf_write (first_read f) stack,
      ext = None, szFile = f_size f\<rparr>\<lparr>ext := file_extension env f\<rparr> = initial_info env stack f"
    by (simp add: initial_info_def)
  show ?thesis
    unfolding create_def Let_def first_read_def [symmetric]
    by (auto simp: first_read_size0 i is_dc_ext_def paired_valid_def prepend_def
          file_extension_def initial_info_def split: option.splits)
qed

lemma first_accepted_cases:
  obtains (none) "List.find (accepted f) cs = None" "first_accepted f cs = Null"
  | (some) st i fns info where "List.find (accepted f) cs = Some (st, i, fns, info)"
      "first_accepted f cs = Handler (FromTable st i) (newRomData fns f)"
proof (cases "List.find (accepted f) cs")
  case None
  then show ?thesis using that(1) by (simp add: first_accepted_def)
next
  case (Some c)
  then show ?thesis using that(2) by (cases c) (simp add: first_accepted_def)
qed

lemma first_accepted_append:
  "first_accepted f (xs @ ys) =
     (if List.find (accepted f) xs = None then first_accepted f ys else first_accepted f xs)"
  by (simp add: first_accepted_def find_append_cases split: option.splits)

lemma result_of_Null: "result_of st r = Null \<longleftrightarrow> (\<forall>i rd. r \<noteq> Found i rd)"
  by (cases r) auto

lemma result_of_Handler:
  "result_of st r = Handler (FromTable st' i) rd \<longleftrightarrow> r = Found i rd \<and> st' = st"
  by (cases r) auto

lemma staged_cases:
  obtains
    (magic) i rd where "fst (scan_magic le f attrs info 0 (romDataFns_magic cat)) = Found i rd"
      "staged le cat f attrs info =
         (Handler (FromTable Magic i) rd, snd (scan_magic le f attrs info 0 (romDataFns_magic cat)))"
  | (bad) "fst (scan_magic le f attrs info 0 (romDataFns_magic cat)) = BadIndex"
      "staged le cat f attrs info =
         (OutOfBounds, snd (scan_magic le f attrs info 0 (romDataFns_magic cat)))"
  | (header) i rd where
      "result_of Magic (fst (scan_magic le f attrs info 0 (romDataFns_magic cat))) = Null"
      "fst (fst (scan_header f attrs info 0 (romDataFns_header cat))) = Found i rd"
      "staged le cat f attrs info =
         (Handler (FromTable Header i) rd,
          snd (scan_magic le f attrs info 0 (romDataFns_magic cat))
            @ snd (scan_header f attrs info 0 (romDataFns_header cat)))"
  | (large)
      "result_of Magic (fst (scan_magic le f attrs info 0 (romDataFns_magic cat))) = Null"
      "result_of Header (fst (fst (scan_header f attrs info 0 (romDataFns_header cat)))) = Null"
      "szFile (after_header f attrs cat info) > 2 ^ 30"
      "staged le cat f attrs info =
         (Null,
          snd (scan_magic le f attrs info 0 (romDataFns_magic cat))
            @ snd (scan_header f attrs info 0 (romDataFns_header cat)))"
  | (footer)
      "result_of Magic (fst (scan_magic le f attrs info 0 (romDataFns_magic cat))) = Null"
      "result_of Header (fst (fst (scan_header f attrs info 0 (romDataFns_header cat)))) = Null"
      "\<not> szFile (after_header f attrs cat info) > 2 ^ 30"
      "staged le cat f attrs info =
         (result_of Footer (fst (scan_footer f attrs (after_header f attrs cat info) False 0
                                   (romDataFns_footer cat))),
          snd (scan_magic le f attrs info 0 (romDataFns_magic cat))
            @ snd (scan_header f attrs info 0 (romDataFns_header cat))
            @ snd (scan_footer f attrs (after_header f attrs cat info) False 0
                     (romDataFns_footer cat)))"
proof -
  obtain rm em where m: "scan_magic le f attrs info 0 (romDataFns_magic cat) = (rm, em)"
    by (cases "scan_magic le f attrs info 0 (romDataFns_magic cat)")
  obtain rh ih eh where h: "scan_header f attrs info 0 (romDataFns_header cat) = ((rh, ih), eh)"
    by (cases "scan_header f attrs info 0 (romDataFns_header cat)") auto
  obtain rf ef where ft: "scan_footer f attrs ih False 0 (romDataFns_footer cat) = (rf, ef)"
    by (cases "scan_footer f attrs ih False 0 (romDataFns_footer cat)")
  have ah: "after_header f attrs cat info = ih" by (simp add: after_header_def h)
  have rest: thesis if nm: "rm = NotFound \<or> rm = ReturnNull"
  proof (cases "\<exists>i rd. rh = Found i rd")
    case True
    then obtain i rd where "rh = Found i rd" by blast
    then show ?thesis using header [of i rd] m h nm by (auto simp: staged_def)
  next
    case False
    then have rhn: "rh = NotFound \<or> rh = ReturnNull \<or> rh = BadIndex" by (cases rh) auto
    show ?thesis
    proof (cases "szFile ih > 2 ^ 30")
      case True
      then show ?thesis using large m h ah nm rhn by (auto simp: staged_def)
    next
      case False
      show ?thesis
        by (rule footer; cases rf) (use False m h ft ah nm rhn in \<open>auto simp: staged_def\<close>)
    qed
  qed
  show ?thesis
  proof (cases rm)
    case (Found i rd)
    then show ?thesis using magic [of i rd] m by (simp add: staged_def)
  next
    case BadIndex
    then show ?thesis using bad m by (simp add: staged_def)
  next
    case NotFound
    then show ?thesis using rest by simp
  next
    case ReturnNull
    then show ?thesis using rest by simp
  qed
qed

lemma constructed_append [simp]: "constructed (xs @ ys) = constructed xs + constructed ys"
  and released_append [simp]: "released (xs @ ys) = released xs + released ys"
  by (simp_all add: constructed_def released_def)

lemma constructed_Cons:
  "constructed (ev # evs) = (if is_new ev then 1 else 0) + constructed evs"
  and released_Cons: "released (ev # evs) = (if is_unref ev then 1 else 0) + released evs"
  by (simp_all add: constructed_def released_def)

lemma constructed_Nil [simp]: "constructed [] = 0" and released_Nil [simp]: "released [] = 0"
  by (simp_all add: constructed_def released_def)

lemma try_fns_balance:
  "constructed (snd (try_fns st i fns f info))
     = released (snd (try_fns st i fns f info)) + (if accepts f info fns then 1 else 0)"
  by (simp add: try_fns_def accepts_def Let_def constructed_def released_def)

lemma no_handler_events:
  assumes "\<forall>ev \<in> set evs. \<not> is_new ev \<and> \<not> is_unref ev"
  shows "constructed evs = 0 \<and> released evs = 0"
  using assms by (induction evs) (auto simp: constructed_def released_def)

lemma header_window_balance:
  assumes "header_window f info fns = Skip info' evs \<or> header_window f info fns = Ready info' evs"
  shows "constructed evs = 0 \<and> released evs = 0"
proof (rule no_handler_events)
  show "\<forall>ev \<in> set evs. \<not> is_new ev \<and> \<not> is_unref ev"
    using header_window_events [OF assms] by auto
qed

lemma footer_window_balance:
  assumes "footer_window f info rf = (r, evs)"
  shows "constructed evs = 0 \<and> released evs = 0"
  using footer_window_events [OF assms] by (auto simp: constructed_def released_def)

lemma scan_magic_balance:
  "constructed (snd (scan_magic le f attrs info i tbl))
     = released (snd (scan_magic le f attrs info i tbl))
       + (if is_found (fst (scan_magic le f attrs info i tbl)) then 1 else 0)"
proof (induction tbl arbitrary: i)
  case Nil
  show ?case by simp
next
  case (Cons fns rest)
  note IH = Cons.IH [of "Suc i"]
  note t = try_fns_balance [of Magic i fns f info]
  show ?case
  proof (cases rule: magic_step_cases [where attrs=attrs and fns=fns and le=le and info=info and f=f])
    case skip
    then show ?thesis using IH by (simp add: scan_magic_skip)
  next
    case bad
    then show ?thesis by (simp add: scan_magic_bad)
  next
    case nomatch
    then show ?thesis using IH by (simp add: scan_magic_nomatch constructed_Cons released_Cons)
  next
    case reject
    then show ?thesis using IH t by (simp add: scan_magic_reject constructed_Cons released_Cons)
  next
    case accept
    then show ?thesis using t by (simp add: scan_magic_accept constructed_Cons released_Cons)
  qed
qed

lemma scan_header_balance:
  "constructed (snd (scan_header f attrs info i tbl))
     = released (snd (scan_header f attrs info i tbl))
       + (if is_found (fst (fst (scan_header f attrs info i tbl))) then 1 else 0)"
proof (induction tbl arbitrary: i info)
  case Nil
  show ?case by simp
next
  case (Cons fns rest)
  show ?case
  proof (cases rule: header_step_cases [where attrs=attrs and fns=fns and info=info and f=f])
    case skip
    then show ?thesis using Cons.IH [of info "Suc i"] by (simp add: scan_header_skip)
  next
    case brk
    then show ?thesis by (simp add: scan_header_brk)
  next
    case (cont info' evs)
    then show ?thesis
      using Cons.IH [of info' "Suc i"] header_window_balance [of f info fns info' evs]
      by (simp add: scan_header_cont)
  next
    case (reject info' evs)
    then show ?thesis
      using Cons.IH [of info' "Suc i"] header_window_balance [of f info fns info' evs]
        try_fns_balance [of Header i fns f info']
      by (simp add: scan_header_reject)
  next
    case (accept info' evs)
    then show ?thesis
      using header_window_balance [of f info fns info' evs]
        try_fns_balance [of Header i fns f info']
      by (simp add: scan_header_accept)
  qed
qed

lemma scan_footer_balance:
  "constructed (snd (scan_footer f attrs info rf i tbl))
     = released (snd (scan_footer f attrs info rf i tbl))
       + (if is_found (fst (scan_footer f attrs info rf i tbl)) then 1 else 0)"
proof (induction tbl arbitrary: i info rf)
  case Nil
  show ?case by simp
next
  case (Cons fns rest)
  show ?case
  proof (cases rule: footer_step_cases [where attrs=attrs and fns=fns and info=info and f=f and rf=rf])
    case skip
    then show ?thesis using Cons.IH [of info rf "Suc i"] by (simp add: scan_footer_skip)
  next
    case (fail evs)
    then show ?thesis using footer_window_balance [of f info rf None evs]
      by (simp add: scan_footer_fail)
  next
    case (reject info' evs)
    then show ?thesis
      using Cons.IH [of info' True "Suc i"] footer_window_balance [of f info rf "Some info'" evs]
        try_fns_balance [of Footer i fns f info']
      by (simp add: scan_footer_reject)
  next
    case (accept info' evs)
    then show ?thesis
      using footer_window_balance [of f info rf "Some info'" evs]
        try_fns_balance [of Footer i fns f info']
      by (simp add: scan_footer_accept)
  qed
qed

lemma result_of_found [simp]:
  "from_table (result_of st r) = is_found r" "(result_of st r = Null) = (\<not> is_found r)"
  by (cases r; simp)+

lemma staged_balance:
  "constructed (snd (staged le cat f attrs info))
     = released (snd (staged le cat f attrs info))
       + (if from_table (fst (staged le cat f attrs info)) then 1 else 0)"
proof (cases rule: staged_cases [where le=le and f=f and attrs=attrs and info=info and cat=cat])
  case (magic i rd)
  then show ?thesis
    using scan_magic_balance [of le f attrs info 0 "romDataFns_magic cat"] by simp
next
  case bad
  then show ?thesis
    using scan_magic_balance [of le f attrs info 0 "romDataFns_magic cat"] by simp
next
  case (header i rd)
  then show ?thesis
    using scan_magic_balance [of le f attrs info 0 "romDataFns_magic cat"]
      scan_header_balance [of f attrs info 0 "romDataFns_header cat"]
    by simp
next
  case large
  then show ?thesis
    using scan_magic_balance [of le f attrs info 0 "romDataFns_magic cat"]
      scan_header_balance [of f attrs info 0 "romDataFns_header cat"]
    by simp
next
  case footer
  then show ?thesis
    using scan_magic_balance [of le f attrs info 0 "romDataFns_magic cat"]
      scan_header_balance [of f attrs info 0 "romDataFns_header cat"]
      scan_footer_balance [of f attrs "after_header f attrs cat info" False 0 "romDataFns_footer cat"]
    by simp
qed

lemma first_accepted_Null_iff:
  "first_accepted f cs = Null \<longleftrightarrow> List.find (accepted f) cs = None"
  by (cases rule: first_accepted_cases [of f cs]) auto

lemma first_accepted_Nil [simp]: "first_accepted f [] = Null"
  by (simp add: first_accepted_def)

lemma first_accepted_append_hit:
  "first_accepted f xs \<noteq> Null \<Longrightarrow> first_accepted f (xs @ ys) = first_accepted f xs"
  by (auto simp: first_accepted_append first_accepted_Null_iff)

lemma first_accepted_append_miss:
  "first_accepted f xs = Null \<Longrightarrow> first_accepted f (xs @ ys) = first_accepted f ys"
  by (simp add: first_accepted_append first_accepted_Null_iff)

lemma after_header_keeps:
  "ext (after_header f attrs cat info) = ext info"
  "szFile (after_header f attrs cat info) = szFile info"
  using scan_header_keeps [of f attrs info 0 "romDataFns_header cat"]
  by (simp_all add: after_header_def)

lemma staged_refines:
  assumes ok: "magic_table_ok (romDataFns_magic cat)" and len: "4352 \<le> length (header_pData info)"
  shows "fst (staged le cat f attrs info) = first_accepted f (candidates cat f attrs info)"
proof -
  let ?mv = "magic_visits info attrs 0 (romDataFns_magic cat)"
  let ?hv = "fst (header_visits f attrs info 0 (romDataFns_header cat))"
  let ?hi = "snd (header_visits f attrs info 0 (romDataFns_header cat))"
  let ?fv = "if szFile ?hi > 2 ^ 30 then []
             else footer_visits f attrs ?hi False 0 (romDataFns_footer cat)"
  have c: "candidates cat f attrs info = ?mv @ ?hv @ ?fv"
    by (simp add: candidates_def Let_def)
  note m = scan_magic_refines [OF ok len, of le f attrs 0]
  note h = scan_header_refines [of f attrs info 0 "romDataFns_header cat"]
  from h have hr: "result_of Header (fst (fst (scan_header f attrs info 0 (romDataFns_header cat))))
      = first_accepted f ?hv" by blast
  from h have hi: "List.find (accepted f) ?hv = None \<Longrightarrow> after_header f attrs cat info = ?hi"
    by (simp add: after_header_def)
  show ?thesis
  proof (cases rule: staged_cases [where le=le and f=f and attrs=attrs and info=info and cat=cat])
    case (magic i rd)
    with m have fa: "first_accepted f ?mv = Handler (FromTable Magic i) rd" by simp
    then have "first_accepted f (?mv @ ?hv @ ?fv) = Handler (FromTable Magic i) rd"
      by (simp add: first_accepted_append_hit)
    with magic(2) show ?thesis by (simp only: c fst_conv)
  next
    case bad
    with scan_magic_in_bounds [OF ok len, of le f attrs 0] show ?thesis by simp
  next
    case (header i rd)
    from header(1) m have mn: "first_accepted f ?mv = Null" by simp
    from header(2) hr have fa: "first_accepted f ?hv = Handler (FromTable Header i) rd" by simp
    then have "first_accepted f (?hv @ ?fv) = Handler (FromTable Header i) rd"
      by (simp add: first_accepted_append_hit)
    then have "first_accepted f (?mv @ ?hv @ ?fv) = Handler (FromTable Header i) rd"
      using mn by (simp only: first_accepted_append_miss)
    with header(3) show ?thesis by (simp only: c fst_conv)
  next
    case large
    from large(1) m have mn: "first_accepted f ?mv = Null" by simp
    from large(2) hr have hnn: "first_accepted f ?hv = Null" by simp
    then have hn: "List.find (accepted f) ?hv = None" by (simp add: first_accepted_Null_iff)
    from hi [OF hn] large(3) have "szFile ?hi > 2 ^ 30" by simp
    then have "?fv = []" by simp
    then have "first_accepted f (?hv @ ?fv) = Null" using hnn by simp
    then have "first_accepted f (?mv @ ?hv @ ?fv) = Null"
      using mn by (simp only: first_accepted_append_miss)
    with large(4) show ?thesis by (simp only: c fst_conv)
  next
    case footer
    from footer(1) m have mn: "first_accepted f ?mv = Null" by simp
    from footer(2) hr have hnn: "first_accepted f ?hv = Null" by simp
    then have hn: "List.find (accepted f) ?hv = None" by (simp add: first_accepted_Null_iff)
    from hi [OF hn] footer(3) have sz: "\<not> szFile ?hi > 2 ^ 30" by simp
    then have fv: "?fv = footer_visits f attrs ?hi False 0 (romDataFns_footer cat)" by simp
    have "fst (staged le cat f attrs info)
        = first_accepted f (footer_visits f attrs ?hi False 0 (romDataFns_footer cat))"
      using footer(4) hi [OF hn]
        scan_footer_refines [of f attrs ?hi False 0 "romDataFns_footer cat"] by simp
    also have "\<dots> = first_accepted f ?fv" by (simp only: fv)
    also have "\<dots> = first_accepted f (?hv @ ?fv)"
      using hnn by (simp only: first_accepted_append_miss)
    also have "\<dots> = first_accepted f (?mv @ ?hv @ ?fv)"
      using mn by (simp only: first_accepted_append_miss)
    finally show ?thesis by (simp only: c)
  qed
qed

lemma at_index_0: "at_index attrs tbl 0 i \<longleftrightarrow> i < length tbl \<and> has_attrs attrs (tbl ! i)"
  by (simp add: at_index_def)

lemma staged_events:
  assumes "ev \<in> set (snd (staged le cat f attrs info))" and "event_descr ev = Some (st, i)"
  shows "i < length (table_of cat st) \<and> has_attrs attrs (table_of cat st ! i)"
proof -
  note m = scan_magic_events [of ev le f attrs info 0 "romDataFns_magic cat" st i, OF _ assms(2)]
  note h = scan_header_events [of ev f attrs info 0 "romDataFns_header cat" st i, OF _ assms(2)]
  note ft = scan_footer_events [of ev f attrs "after_header f attrs cat info" False 0
              "romDataFns_footer cat" st i, OF _ assms(2)]
  have "(st = Magic \<and> at_index attrs (romDataFns_magic cat) 0 i)
      \<or> (st = Header \<and> at_index attrs (romDataFns_header cat) 0 i)
      \<or> (st = Footer \<and> at_index attrs (romDataFns_footer cat) 0 i)"
  proof (cases rule: staged_cases [where le=le and f=f and attrs=attrs and info=info and cat=cat])
    case (magic i rd)
    with assms(1) m show ?thesis by simp
  next
    case bad
    with assms(1) m show ?thesis by simp
  next
    case (header i rd)
    with assms(1) m h show ?thesis by auto
  next
    case large
    with assms(1) m h show ?thesis by auto
  next
    case footer
    with assms(1) m h ft show ?thesis by auto
  qed
  then show ?thesis by (auto simp: at_index_0)
qed

lemma staged_handler:
  assumes "fst (staged le cat f attrs info) = Handler (FromTable st i) rd"
  shows "i < length (table_of cat st) \<and> has_attrs attrs (table_of cat st ! i)
         \<and> rd = newRomData (table_of cat st ! i) f \<and> isValid rd"
proof (cases rule: staged_cases [where le=le and f=f and attrs=attrs and info=info and cat=cat])
  case (magic j rd')
  with assms have e: "st = Magic" "i = j" "rd = rd'" by simp_all
  from scan_magic_found [OF magic(1)] show ?thesis unfolding e by (auto simp: at_index_0)
next
  case bad
  with assms show ?thesis by simp
next
  case (header j rd')
  with assms have e: "st = Header" "i = j" "rd = rd'" by simp_all
  from scan_header_found [OF header(2)] show ?thesis unfolding e by (auto simp: at_index_0)
next
  case large
  with assms show ?thesis by simp
next
  case footer
  let ?r = "fst (scan_footer f attrs (after_header f attrs cat info) False 0 (romDataFns_footer cat))"
  from footer(4) assms have "result_of Footer ?r = Handler (FromTable st i) rd" by simp
  then have e: "st = Footer" and r: "?r = Found i rd"
    by (simp_all add: result_of_Handler)
  from scan_footer_found [OF r] show ?thesis unfolding e by (auto simp: at_index_0)
qed

lemma event_descr_footer_read: "is_footer_read ev \<Longrightarrow> event_descr ev = None"
  by (cases ev) auto

lemma scan_magic_no_read:
  "ev \<in> set (snd (scan_magic le f attrs info i tbl)) \<Longrightarrow> \<not> is_footer_read ev"
proof (induction tbl arbitrary: i)
  case Nil
  then show ?case by simp
next
  case (Cons fns rest)
  note IH = Cons.IH [of "Suc i"]
  note t = try_fns_no_read [of ev Magic i fns f info]
  show ?case
  proof (cases rule: magic_step_cases [where attrs=attrs and fns=fns and le=le and info=info and f=f])
    case skip
    with Cons.prems IH show ?thesis by (simp add: scan_magic_skip)
  next
    case bad
    with Cons.prems show ?thesis by (simp add: scan_magic_bad)
  next
    case nomatch
    with Cons.prems IH show ?thesis by (auto simp: scan_magic_nomatch)
  next
    case reject
    with Cons.prems IH t show ?thesis by (auto simp: scan_magic_reject)
  next
    case accept
    with Cons.prems t show ?thesis by (auto simp: scan_magic_accept)
  qed
qed

lemma scan_header_no_read:
  "ev \<in> set (snd (scan_header f attrs info i tbl)) \<Longrightarrow> \<not> is_footer_read ev"
proof (induction tbl arbitrary: i info)
  case Nil
  then show ?case by simp
next
  case (Cons fns rest)
  have win: "\<not> is_footer_read ev"
    if "header_window f info fns = Skip info' evs \<or> header_window f info fns = Ready info' evs"
      "ev \<in> set evs" for info' evs
    using header_window_events [OF that(1)] that(2) by auto
  show ?case
  proof (cases rule: header_step_cases [where attrs=attrs and fns=fns and info=info and f=f])
    case skip
    with Cons.prems Cons.IH [of info "Suc i"] show ?thesis by (simp add: scan_header_skip)
  next
    case brk
    with Cons.prems show ?thesis by (simp add: scan_header_brk)
  next
    case (cont info' evs)
    with Cons.prems Cons.IH [of info' "Suc i"] win [of info' evs] show ?thesis
      by (auto simp: scan_header_cont)
  next
    case (reject info' evs)
    with Cons.prems Cons.IH [of info' "Suc i"] win [of info' evs]
      try_fns_no_read [of ev Header i fns f info']
    show ?thesis by (auto simp: scan_header_reject)
  next
    case (accept info' evs)
    with Cons.prems win [of info' evs] try_fns_no_read [of ev Header i fns f info']
    show ?thesis by (auto simp: scan_header_accept)
  qed
qed

lemma staged_read_once: "length (filter is_footer_read (snd (staged le cat f attrs info))) \<le> 1"
proof -
  have m: "filter is_footer_read (snd (scan_magic le f attrs info 0 (romDataFns_magic cat))) = []"
    by (rule filter_none) (rule scan_magic_no_read)
  have h: "filter is_footer_read (snd (scan_header f attrs info 0 (romDataFns_header cat))) = []"
    by (rule filter_none) (rule scan_header_no_read)
  note ft = scan_footer_read_once [of f attrs "after_header f attrs cat info" False 0
              "romDataFns_footer cat"]
  show ?thesis
    by (cases rule: staged_cases [where le=le and f=f and attrs=attrs and info=info and cat=cat])
       (use m h ft in simp_all)
qed

lemma staged_read_only_if:
  assumes "ev \<in> set (snd (staged le cat f attrs info))" and "is_footer_read ev"
  shows "\<not> szFile info > 2 ^ 30 \<and> szFile info > footer_size \<and> vb_ext info
         \<and> (\<exists>fns \<in> set (romDataFns_footer cat). has_attrs attrs fns)"
proof -
  note m = scan_magic_no_read [of ev le f attrs info 0 "romDataFns_magic cat"]
  note h = scan_header_no_read [of ev f attrs info 0 "romDataFns_header cat"]
  note ft = scan_footer_read_only_if [of ev f attrs "after_header f attrs cat info" False 0
              "romDataFns_footer cat", OF _ assms(2)]
  note k = after_header_keeps [of f attrs cat info]
  have v: "vb_ext (after_header f attrs cat info) = vb_ext info"
    by (rule vb_ext_cong) (rule k(1))
  show ?thesis
  proof (cases rule: staged_cases [where le=le and f=f and attrs=attrs and info=info and cat=cat])
    case (magic i rd)
    with assms m show ?thesis by simp
  next
    case bad
    with assms m show ?thesis by simp
  next
    case (header i rd)
    with assms m h show ?thesis by auto
  next
    case large
    with assms m h show ?thesis by auto
  next
    case footer
    from footer(4) assms(1) m h assms(2)
    have "ev \<in> set (snd (scan_footer f attrs (after_header f attrs cat info) False 0
                           (romDataFns_footer cat)))" by auto
    from ft [OF this] footer(3) show ?thesis by (simp add: k v)
  qed
qed

lemma staged_large:
  assumes "szFile info > 2 ^ 30"
  shows "(\<forall>ev \<in> set (snd (staged le cat f attrs info)).
            \<not> is_footer_read ev \<and> (\<forall>i. event_descr ev \<noteq> Some (Footer, i)))
         \<and> (\<forall>i rd. fst (staged le cat f attrs info) \<noteq> Handler (FromTable Footer i) rd)"
proof -
  have m: "\<not> is_footer_read ev \<and> (\<forall>i. event_descr ev \<noteq> Some (Footer, i))"
    if "ev \<in> set (snd (scan_magic le f attrs info 0 (romDataFns_magic cat)))" for ev
    using scan_magic_no_read [OF that] scan_magic_events [OF that] by auto
  have h: "\<not> is_footer_read ev \<and> (\<forall>i. event_descr ev \<noteq> Some (Footer, i))"
    if "ev \<in> set (snd (scan_header f attrs info 0 (romDataFns_header cat)))" for ev
    using scan_header_no_read [OF that] scan_header_events [OF that] by auto
  note k = after_header_keeps [of f attrs cat info]
  show ?thesis
  proof (cases rule: staged_cases [where le=le and f=f and attrs=attrs and info=info and cat=cat])
    case (magic i rd)
    with m show ?thesis by simp
  next
    case bad
    with m show ?thesis by simp
  next
    case (header i rd)
    with m h show ?thesis by auto
  next
    case large
    with m h show ?thesis by auto
  next
    case footer
    with assms k show ?thesis by simp
  qed
qed

lemma scan_magic_supported:
  "IsRomSupported st i \<in> set (snd (scan_magic le f attrs info i0 tbl)) \<Longrightarrow>
   i0 \<le> i \<and> i - i0 < length tbl \<and> magic_eq le info (tbl ! (i - i0)) = Some True"
proof (induction tbl arbitrary: i0)
  case Nil
  then show ?case by simp
next
  case (Cons fns rest)
  have later: "i0 \<le> i \<and> i - i0 < length (fns # rest) \<and> magic_eq le info ((fns # rest) ! (i - i0)) = Some True"
    if "IsRomSupported st i \<in> set (snd (scan_magic le f attrs info (Suc i0) rest))"
  proof -
    from Cons.IH [OF that] have a: "Suc i0 \<le> i" "i - Suc i0 < length rest"
      "magic_eq le info (rest ! (i - Suc i0)) = Some True" by auto
    from a(1) have "i - i0 = Suc (i - Suc i0)" by arith
    with a show ?thesis by simp
  qed
  have here: "i = i0" if "IsRomSupported st i \<in> set (snd (try_fns Magic i0 fns f info))"
    using try_fns_events [OF that] by simp
  show ?case
  proof (cases rule: magic_step_cases [where attrs=attrs and fns=fns and le=le and info=info and f=f])
    case skip
    with Cons.prems later show ?thesis by (simp add: scan_magic_skip)
  next
    case bad
    with Cons.prems show ?thesis by (simp add: scan_magic_bad)
  next
    case nomatch
    with Cons.prems later show ?thesis by (auto simp: scan_magic_nomatch)
  next
    case reject
    with Cons.prems later here show ?thesis by (auto simp: scan_magic_reject)
  next
    case accept
    with Cons.prems here show ?thesis by (auto simp: scan_magic_accept)
  qed
qed

lemma try_fns_head:
  "\<exists>rest. snd (try_fns st i fns f info) = IsRomSupported st i # rest"
  by (simp add: try_fns_def Let_def)

text \<open>A footer read is the first thing the footer loop does, right before a predicate call.\<close>

lemma scan_footer_read_first:
  assumes "ev \<in> set (snd (scan_footer f attrs info rf i0 tbl))" and "is_footer_read ev"
  shows "snd (scan_footer f attrs info rf i0 tbl) = [ev]
         \<or> (\<exists>i post. snd (scan_footer f attrs info rf i0 tbl) = ev # IsRomSupported Footer i # post)"
  using assms(1)
proof (induction tbl arbitrary: i0)
  case Nil
  then show ?case by simp
next
  case (Cons fns rest)
  have tr: False if "ev \<in> set (snd (try_fns Footer i0 fns f info'))" for info'
    using try_fns_no_read [OF that] assms(2) by simp
  have after: False if "ev \<in> set (snd (scan_footer f attrs info' True (Suc i0) rest))" for info'
    using scan_footer_read_done [OF that] assms(2) by simp
  have win: "evs = [ev]" if "footer_window f info rf = (r, evs)" "ev \<in> set evs" for r evs
    using footer_window_events [OF that(1)] that(2) by auto
  show ?case
  proof (cases rule: footer_step_cases [where attrs=attrs and fns=fns and info=info and f=f and rf=rf])
    case skip
    with Cons.prems Cons.IH [of "Suc i0"] show ?thesis by (simp add: scan_footer_skip)
  next
    case (fail evs)
    with Cons.prems win [of None evs] show ?thesis by (simp add: scan_footer_fail)
  next
    case (reject info' evs)
    obtain post where p: "snd (try_fns Footer i0 fns f info') = IsRomSupported Footer i0 # post"
      using try_fns_head [of Footer i0 fns f info'] by blast
    from reject Cons.prems tr [of info'] after [of info'] have "ev \<in> set evs"
      by (auto simp: scan_footer_reject)
    from win [OF reject(3) this] reject p show ?thesis by (simp add: scan_footer_reject)
  next
    case (accept info' evs)
    obtain post where p: "snd (try_fns Footer i0 fns f info') = IsRomSupported Footer i0 # post"
      using try_fns_head [of Footer i0 fns f info'] by blast
    from accept Cons.prems tr [of info'] have "ev \<in> set evs"
      by (auto simp: scan_footer_accept)
    from win [OF accept(3) this] accept p show ?thesis by (simp add: scan_footer_accept)
  qed
qed

lemma staged_read_lazy:
  assumes "ev \<in> set (snd (staged le cat f attrs info))" and "is_footer_read ev"
  shows "(\<exists>pre. snd (staged le cat f attrs info) = pre @ [ev])
         \<or> (\<exists>pre i post. snd (staged le cat f attrs info) = pre @ ev # IsRomSupported Footer i # post)"
proof -
  note m = scan_magic_no_read [of ev le f attrs info 0 "romDataFns_magic cat"]
  note h = scan_header_no_read [of ev f attrs info 0 "romDataFns_header cat"]
  let ?ft = "snd (scan_footer f attrs (after_header f attrs cat info) False 0 (romDataFns_footer cat))"
  let ?pre = "snd (scan_magic le f attrs info 0 (romDataFns_magic cat))
            @ snd (scan_header f attrs info 0 (romDataFns_header cat))"
  show ?thesis
  proof (cases rule: staged_cases [where le=le and f=f and attrs=attrs and info=info and cat=cat])
    case (magic i rd)
    with assms m show ?thesis by simp
  next
    case bad
    with assms m show ?thesis by simp
  next
    case (header i rd)
    with assms m h show ?thesis by auto
  next
    case large
    with assms m h show ?thesis by auto
  next
    case footer
    from footer(4) have s: "snd (staged le cat f attrs info) = ?pre @ ?ft" by simp
    with assms m h have "ev \<in> set ?ft" by auto
    from scan_footer_read_first [OF this assms(2)]
    show ?thesis unfolding s by (metis append.assoc)
  qed
qed

lemma create_trace_cases:
  obtains (empty) "first_read f = []"
      "create le env cat stack f attrs = (Null, [FileSize, Rewind, Read 4352])"
  | (pair) rd where "first_read f \<noteq> []" "paired_valid env f"
      "create le env cat stack f attrs =
         (Handler FromPair rd, [FileSize, Rewind, Read 4352, OpenPair])"
  | (stages) pre where "first_read f \<noteq> []" "\<not> paired_valid env f"
      "\<forall>ev \<in> set pre. event_descr ev = None \<and> \<not> is_footer_read ev \<and> \<not> is_new ev \<and> \<not> is_unref ev"
      "create le env cat stack f attrs =
         prepend pre (staged le cat f attrs (initial_info env stack f))"
proof (cases "first_read f = []")
  case True
  then show ?thesis using empty by (simp add: create_unfold)
next
  case ne: False
  show ?thesis
  proof (cases "paired_valid env f")
    case True
    then show ?thesis using pair ne by (simp add: create_unfold)
  next
    case False
    show ?thesis
      by (rule stages [of "[FileSize, Rewind, Read 4352] @ (if is_dc_ext env f then [OpenPair] else [])"])
         (use False ne in \<open>simp_all add: create_unfold\<close>)
  qed
qed

lemma initial_info_fields [simp]:
  "szFile (initial_info env stack f) = f_size f"
  "ext (initial_info env stack f) = file_extension env f"
  "header_pData (initial_info env stack f) = buf_write (first_read f) stack"
  by (simp_all add: initial_info_def)

lemma length_buf_write: "length (buf_write data buf) = max (length data) (length buf)"
  by (simp add: buf_write_def)

text \<open>
  Claim C10. If the initial read of the detection header returns zero bytes, create
  returns null at once: the only operations are the size query, the rewind and that one
  read. No catalog descriptor is consulted, not even one whose predicate would accept a
  zero-length header, and the paired-file special case is not attempted.
\<close>

theorem create_empty_read:
  "first_read f = [] \<Longrightarrow> create le env cat stack f attrs = (Null, [FileSize, Rewind, Read 4352])"
  by (simp add: create_unfold)

text \<open>
  Claim C2. For every file and every requested attribute set, whatever create does with
  a descriptor (magic compare, predicate call, construction, release) it does only with
  descriptors whose attributes contain every requested bit, in all three stages; and a
  handler returned from a table was built by such a descriptor. A descriptor with
  \<^verbatim>\<open>(attrs_f & attrs) != attrs\<close> is therefore skipped before anything is run on it.
\<close>

theorem create_attrs_filter:
  "(\<forall>ev \<in> set (snd (create le env cat stack f attrs)). \<forall>st i.
       event_descr ev = Some (st, i) \<longrightarrow>
         i < length (table_of cat st) \<and> (attrs_f (table_of cat st ! i) AND attrs) = attrs)
   \<and> (\<forall>st i rd. fst (create le env cat stack f attrs) = Handler (FromTable st i) rd \<longrightarrow>
         i < length (table_of cat st) \<and> (attrs_f (table_of cat st ! i) AND attrs) = attrs
         \<and> rd = newRomData (table_of cat st ! i) f)"
proof (cases rule: create_trace_cases [where f=f and le=le and env=env and cat=cat and stack=stack and attrs=attrs])
  case empty
  then show ?thesis by simp
next
  case (pair rd)
  then show ?thesis by simp
next
  case (stages pre)
  let ?s = "staged le cat f attrs (initial_info env stack f)"
  have ev: "i < length (table_of cat st) \<and> (attrs_f (table_of cat st ! i) AND attrs) = attrs"
    if "ev \<in> set (snd (create le env cat stack f attrs))" "event_descr ev = Some (st, i)" for ev st i
  proof -
    from that stages(3,4) have "ev \<in> set (snd ?s)" by auto
    from staged_events [OF this that(2)] show ?thesis by (simp add: has_attrs_def)
  qed
  have res: "i < length (table_of cat st) \<and> (attrs_f (table_of cat st ! i) AND attrs) = attrs
         \<and> rd = newRomData (table_of cat st ! i) f"
    if "fst (create le env cat stack f attrs) = Handler (FromTable st i) rd" for st i rd
  proof -
    from that stages(4) have "fst ?s = Handler (FromTable st i) rd" by simp
    from staged_handler [OF this] show ?thesis by (simp add: has_attrs_def)
  qed
  from ev res show ?thesis by blast
qed

text \<open>
  Claim C3. For a file larger than 1 GiB the run contains no read of the trailing
  window and no operation on a footer descriptor, and the result does not come from the
  footer table. For every file the trailing window is read at most once. When it is
  read, the file is at most 1 GiB, its extension matches \<^verbatim>\<open>.vb\<close> (the extension of
  the footer candidate), some footer descriptor passes the capability filter, and the
  read happens lazily: it is either the last operation of the run (the read failed) or
  it is immediately followed by the predicate call of a footer descriptor.
\<close>

theorem create_footer_stage:
  "(f_size f > 2 ^ 30 \<longrightarrow>
      (\<forall>ev \<in> set (snd (create le env cat stack f attrs)).
          \<not> is_footer_read ev \<and> (\<forall>i. event_descr ev \<noteq> Some (Footer, i)))
      \<and> (\<forall>i rd. fst (create le env cat stack f attrs) \<noteq> Handler (FromTable Footer i) rd))
   \<and> length (filter is_footer_read (snd (create le env cat stack f attrs))) \<le> 1
   \<and> (\<forall>ev \<in> set (snd (create le env cat stack f attrs)). is_footer_read ev \<longrightarrow>
        f_size f \<le> 2 ^ 30
        \<and> (\<exists>e. file_extension env f = Some e \<and> strcasecmp_eq e ''.vb'')
        \<and> (\<exists>fns \<in> set (romDataFns_footer cat). (attrs_f fns AND attrs) = attrs)
        \<and> ((\<exists>pre. snd (create le env cat stack f attrs) = pre @ [ev])
            \<or> (\<exists>pre i post. snd (create le env cat stack f attrs)
                               = pre @ ev # IsRomSupported Footer i # post)))"
proof (cases rule: create_trace_cases [where f=f and le=le and env=env and cat=cat and stack=stack and attrs=attrs])
  case empty
  then show ?thesis by simp
next
  case (pair rd)
  then show ?thesis by simp
next
  case (stages pre)
  let ?i = "initial_info env stack f"
  let ?s = "staged le cat f attrs ?i"
  have tr: "snd (create le env cat stack f attrs) = pre @ snd ?s" and r: "fst (create le env cat stack f attrs) = fst ?s"
    using stages(4) by simp_all
  have pre: "filter is_footer_read pre = []"
    by (rule filter_none) (use stages(3) in blast)
  have a: "(\<forall>ev \<in> set (snd (create le env cat stack f attrs)).
          \<not> is_footer_read ev \<and> (\<forall>i. event_descr ev \<noteq> Some (Footer, i)))
      \<and> (\<forall>i rd. fst (create le env cat stack f attrs) \<noteq> Handler (FromTable Footer i) rd)"
    if "f_size f > 2 ^ 30"
    using staged_large [of ?i le cat f attrs] that stages(3) unfolding tr r by auto
  have b: "length (filter is_footer_read (snd (create le env cat stack f attrs))) \<le> 1"
    using staged_read_once [of le cat f attrs ?i] pre unfolding tr by simp
  have c: "f_size f \<le> 2 ^ 30
        \<and> (\<exists>e. file_extension env f = Some e \<and> strcasecmp_eq e ''.vb'')
        \<and> (\<exists>fns \<in> set (romDataFns_footer cat). (attrs_f fns AND attrs) = attrs)
        \<and> ((\<exists>pre. snd (create le env cat stack f attrs) = pre @ [ev])
            \<or> (\<exists>pre i post. snd (create le env cat stack f attrs)
                               = pre @ ev # IsRomSupported Footer i # post))"
    if "ev \<in> set (snd (create le env cat stack f attrs))" "is_footer_read ev" for ev
  proof -
    from that stages(3) have in_s: "ev \<in> set (snd ?s)" unfolding tr by auto
    from staged_read_only_if [OF in_s that(2)]
    have 1: "f_size f \<le> 2 ^ 30" and v: "vb_ext ?i"
      and 3: "\<exists>fns \<in> set (romDataFns_footer cat). (attrs_f fns AND attrs) = attrs"
      by (auto simp: has_attrs_def)
    from v have 2: "\<exists>e. file_extension env f = Some e \<and> strcasecmp_eq e ''.vb''"
      by (auto simp: vb_ext_def split: option.splits)
    from staged_read_lazy [OF in_s that(2)]
    have 4: "(\<exists>pre. snd (create le env cat stack f attrs) = pre @ [ev])
            \<or> (\<exists>pre i post. snd (create le env cat stack f attrs)
                               = pre @ ev # IsRomSupported Footer i # post)"
      unfolding tr by (metis append.assoc)
    from 1 2 3 4 show ?thesis by blast
  qed
  from a b c show ?thesis by blast
qed

text \<open>
  Claim C1, amended. For every input file whose initial read is not empty and for which
  the paired-file special case yields no valid handler, create returns the handler of
  the first candidate (magic stage, then header stage, then footer stage, each in table
  order) whose predicate accepts and whose handler is valid, and null when there is
  none. In the magic stage a predicate is called only for a descriptor whose magic
  equals the big-endian 32-bit word at its offset in the buffered header. Every handler
  that was constructed but is not the one returned has been released.
\<close>

theorem create_first_valid:
  assumes "first_read f \<noteq> []" and "\<not> paired_valid env f"
    and "magic_table_ok (romDataFns_magic cat)" and "length stack = 4352"
  shows "fst (create le env cat stack f attrs)
           = first_accepted f (candidates cat f attrs (initial_info env stack f))
         \<and> (\<forall>i. IsRomSupported Magic i \<in> set (snd (create le env cat stack f attrs)) \<longrightarrow>
               i < length (romDataFns_magic cat)
               \<and> be32_at (header_pData (initial_info env stack f))
                    (unat (address (romDataFns_magic cat ! i)))
                  = Some (size_f (romDataFns_magic cat ! i)))
         \<and> constructed (snd (create le env cat stack f attrs))
             = released (snd (create le env cat stack f attrs))
               + (if from_table (fst (create le env cat stack f attrs)) then 1 else 0)"
proof (cases rule: create_trace_cases [where f=f and le=le and env=env and cat=cat and stack=stack and attrs=attrs])
  case empty
  with assms(1) show ?thesis by simp
next
  case (pair rd)
  with assms(2) show ?thesis by simp
next
  case (stages pre)
  let ?i = "initial_info env stack f"
  let ?s = "staged le cat f attrs ?i"
  let ?tbl = "romDataFns_magic cat"
  have tr: "snd (create le env cat stack f attrs) = pre @ snd ?s"
    and r: "fst (create le env cat stack f attrs) = fst ?s"
    using stages(4) by simp_all
  have len: "4352 \<le> length (header_pData ?i)"
    using assms(4) by (simp add: length_buf_write)
  have 1: "fst (create le env cat stack f attrs) = first_accepted f (candidates cat f attrs ?i)"
    unfolding r by (rule staged_refines [OF assms(3) len])
  have 2: "i < length ?tbl \<and> be32_at (header_pData ?i) (unat (address (?tbl ! i))) = Some (size_f (?tbl ! i))"
    if "IsRomSupported Magic i \<in> set (snd (create le env cat stack f attrs))" for i
  proof -
    from that stages(3) have in_s: "IsRomSupported Magic i \<in> set (snd ?s)" unfolding tr by auto
    have in_m: "IsRomSupported Magic i \<in> set (snd (scan_magic le f attrs ?i 0 ?tbl))"
    proof (cases rule: staged_cases [where le=le and f=f and attrs=attrs and info="?i" and cat=cat])
      case (magic i rd)
      with in_s show ?thesis by simp
    next
      case bad
      with in_s show ?thesis by simp
    next
      case (header j rd)
      with in_s scan_header_events [of "IsRomSupported Magic i" f attrs ?i 0 "romDataFns_header cat" Magic i]
      show ?thesis by auto
    next
      case large
      with in_s scan_header_events [of "IsRomSupported Magic i" f attrs ?i 0 "romDataFns_header cat" Magic i]
      show ?thesis by auto
    next
      case footer
      with in_s scan_header_events [of "IsRomSupported Magic i" f attrs ?i 0 "romDataFns_header cat" Magic i]
        scan_footer_events [of "IsRomSupported Magic i" f attrs "after_header f attrs cat ?i" False 0
          "romDataFns_footer cat" Magic i]
      show ?thesis by auto
    qed
    from scan_magic_supported [OF in_m]
    have i: "i < length ?tbl" and me: "magic_eq le ?i (?tbl ! i) = Some True" by simp_all
    from i assms(3) have "unat (address (?tbl ! i)) mod 4 = 0" "unat (address (?tbl ! i)) + 4 \<le> 4352"
      by (simp_all add: magic_table_ok_def)
    from magic_eq_spec [OF this len, of le] me i show ?thesis by simp
  qed
  have p0: "constructed pre = 0 \<and> released pre = 0"
    by (rule no_handler_events) (use stages(3) in blast)
  have 3: "constructed (snd (create le env cat stack f attrs))
             = released (snd (create le env cat stack f attrs))
               + (if from_table (fst (create le env cat stack f attrs)) then 1 else 0)"
    unfolding tr r using staged_balance [of le cat f attrs ?i] p0 by simp
  from 1 2 3 show ?thesis by blast
qed

lemma strcase_facts:
  "\<not> strcasecmp_eq ''.lnx'' ''.vms''" "\<not> strcasecmp_eq ''.lnx'' ''.vmi''"
  "\<not> strcasecmp_eq ''.lnx'' ''.vb''" "\<not> strcasecmp_eq ''.lnx'' ''.bin''"
  "strcasecmp_eq ''.vms'' ''.vms''" "strcasecmp_eq ''e.vb'' ''.vb'' = False"
  by code_simp+

lemma fr_lynx: "first_read lynx_file = [0x4C, 0x59, 0x4E, 0x58, 0, 0, 0, 0]"
  by (simp add: first_read_def file_read_def lynx_file_def mem_file_def)

lemma ext_lynx: "file_extension demo_env lynx_file = Some ''.lnx''"
  by (simp add: file_extension_def demo_env_def lynx_file_def mem_file_def)

lemma be_lynx: "be_u32 0x4C 0x59 0x4E 0x58 = 0x4C594E58"
  by (simp add: be_u32_def)

lemma mc_lynx: "be32_at (buf_write (first_read lynx_file) stack0) 0 = Some 0x4C594E58"
  by (simp add: fr_lynx be32_at_def buf_write_def stack0_def be_lynx)

theorem create_first_valid_witness:
  "fst (create True demo_env demo_cat stack0 lynx_file 0)
     = Handler (FromTable Magic 1) (valid_handler ''Lynx'')
   \<and> constructed (snd (create True demo_env demo_cat stack0 lynx_file 0))
       = released (snd (create True demo_env demo_cat stack0 lynx_file 0)) + 1"
proof -
  let ?i = "initial_info demo_env stack0 lynx_file"
  have h1: "first_read lynx_file \<noteq> []" by (simp add: fr_lynx)
  have h2: "\<not> paired_valid demo_env lynx_file"
    by (simp add: paired_valid_def is_dc_ext_def ext_lynx strcase_facts)
  have h3: "magic_table_ok (romDataFns_magic demo_cat)"
    by (simp add: magic_table_ok_def demo_cat_def)
  have h4: "length stack0 = 4352" by (simp add: stack0_def)
  have fa: "first_accepted lynx_file (magic_visits ?i 0 0 (romDataFns_magic demo_cat))
      = Handler (FromTable Magic 1) (valid_handler ''Lynx'')"
    by (simp add: demo_cat_def magic_check_def has_attrs_def mc_lynx first_accepted_def
          accepted_def accepts_def valid_handler_def invalid_handler_def)
  have fa': "first_accepted lynx_file (candidates demo_cat lynx_file 0 ?i)
      = Handler (FromTable Magic 1) (valid_handler ''Lynx'')"
    unfolding candidates_def using fa by (simp add: first_accepted_append_hit)
  from create_first_valid [OF h1 h2 h3 h4, of True 0] fa' show ?thesis by simp
qed

lemma fr_vms: "first_read dc_vms_file = replicate 512 0"
  by (simp add: first_read_def file_read_def dc_vms_file_def mem_file_def)

theorem create_pair_counterexample:
  "fst (create True dc_env no_catalog stack0 dc_vms_file 0)
     = Handler FromPair (valid_handler ''DreamcastSave'')
   \<and> first_accepted dc_vms_file
        (candidates no_catalog dc_vms_file 0 (initial_info dc_env stack0 dc_vms_file)) = Null"
proof -
  have e: "file_extension dc_env dc_vms_file = Some ''.vms''"
    by (simp add: file_extension_def dc_env_def demo_env_def dc_vms_file_def mem_file_def)
  have o: "openDreamcastVMSandVMI dc_env dc_vms_file = Some (valid_handler ''DreamcastSave'')"
    by (simp add: openDreamcastVMSandVMI_def dc_env_def demo_env_def dc_vms_file_def mem_file_def
          DC_VMS_BLOCK_SIZE_def DC_VMS_ICONDATA_MONO_MINSIZE_def DC_VMI_Header_SIZE_def
          valid_handler_def)
  have p: "paired_valid dc_env dc_vms_file"
    by (simp add: paired_valid_def is_dc_ext_def e o strcase_facts valid_handler_def)
  have 1: "fst (create True dc_env no_catalog stack0 dc_vms_file 0)
     = Handler FromPair (valid_handler ''DreamcastSave'')"
    by (simp add: create_unfold fr_vms p o)
  have 2: "first_accepted dc_vms_file
        (candidates no_catalog dc_vms_file 0 (initial_info dc_env stack0 dc_vms_file)) = Null"
    by (simp add: candidates_def no_catalog_def)
  from 1 2 show ?thesis by simp
qed

theorem create_empty_read_witness:
  "first_read empty_file = []
   \<and> create True demo_env demo_cat stack0 empty_file 0 = (Null, [FileSize, Rewind, Read 4352])
   \<and> accepts empty_file (initial_info demo_env stack0 empty_file) (romDataFns_header demo_cat ! 0)"
proof -
  have h: "first_read empty_file = []"
    by (simp add: first_read_def file_read_def empty_file_def mem_file_def)
  have a: "accepts empty_file (initial_info demo_env stack0 empty_file) (romDataFns_header demo_cat ! 0)"
    by (simp add: accepts_def demo_cat_def initial_info_def h valid_handler_def)
  from create_empty_read [OF h, of True demo_env demo_cat stack0 0] h a show ?thesis by simp
qed

theorem create_attrs_filter_witness:
  "(attrs_f (romDataFns_magic demo_cat ! 1) AND 1) \<noteq> 1
   \<and> MagicCompare 1 \<notin> set (snd (create True demo_env demo_cat stack0 lynx_file 1))
   \<and> IsRomSupported Magic 1 \<notin> set (snd (create True demo_env demo_cat stack0 lynx_file 1))
   \<and> fst (create True demo_env demo_cat stack0 lynx_file 1)
       \<noteq> Handler (FromTable Magic 1) (valid_handler ''Lynx'')"
proof -
  have a: "(attrs_f (romDataFns_magic demo_cat ! 1) AND 1) \<noteq> 1"
    by (simp add: demo_cat_def)
  have t: "table_of demo_cat Magic = romDataFns_magic demo_cat" by simp
  note inst = create_attrs_filter [of True demo_env demo_cat stack0 lynx_file 1]
  have 1: "MagicCompare 1 \<notin> set (snd (create True demo_env demo_cat stack0 lynx_file 1))"
  proof
    assume "MagicCompare 1 \<in> set (snd (create True demo_env demo_cat stack0 lynx_file 1))"
    with inst have "(attrs_f (table_of demo_cat Magic ! 1) AND 1) = 1"
      using event_descr.simps(1) [of 1] by blast
    with a t show False by simp
  qed
  have 2: "IsRomSupported Magic 1 \<notin> set (snd (create True demo_env demo_cat stack0 lynx_file 1))"
  proof
    assume "IsRomSupported Magic 1 \<in> set (snd (create True demo_env demo_cat stack0 lynx_file 1))"
    with inst have "(attrs_f (table_of demo_cat Magic ! 1) AND 1) = 1"
      using event_descr.simps(2) [of Magic 1] by blast
    with a t show False by simp
  qed
  have 3: "fst (create True demo_env demo_cat stack0 lynx_file 1)
       \<noteq> Handler (FromTable Magic 1) (valid_handler ''Lynx'')"
  proof
    assume "fst (create True demo_env demo_cat stack0 lynx_file 1)
       = Handler (FromTable Magic 1) (valid_handler ''Lynx'')"
    with inst have "(attrs_f (table_of demo_cat Magic ! 1) AND 1) = 1" by blast
    with a t show False by simp
  qed
  from a 1 2 3 show ?thesis by simp
qed

lemma fr_vb: "first_read vb_file = replicate 2048 1"
  by (simp add: first_read_def file_read_def vb_file_def mem_file_def)

lemma ext_vb: "file_extension demo_env vb_file = Some ''.vb''"
  by (simp add: file_extension_def demo_env_def vb_file_def mem_file_def)

lemma strcase_vb:
  "strcasecmp_eq ''.vb'' ''.vb''" "\<not> strcasecmp_eq ''.vb'' ''.vms''" "\<not> strcasecmp_eq ''.vb'' ''.vmi''"
  by code_simp+

lemma run_vb:
  "create True demo_env demo_cat stack0 vb_file 0 =
     (Handler (FromTable Footer 0) (valid_handler ''VirtualBoy''),
      [FileSize, Rewind, Read 4352, MagicCompare 0, MagicCompare 1, IsRomSupported Header 0,
       SeekAndRead 1024 1024, IsRomSupported Footer 0, NewRomData Footer 0])"
proof -
  let ?i = "initial_info demo_env stack0 vb_file"
  have np: "\<not> is_dc_ext demo_env vb_file"
    by (simp add: is_dc_ext_def ext_vb strcase_vb)
  have i: "?i = \<lparr>header_addr = 0, header_size = 2048,
      header_pData = replicate 2048 1 @ replicate 2304 0, ext = Some ''.vb'', szFile = 2048\<rparr>"
    by (simp add: initial_info_def fr_vb ext_vb buf_write_def stack0_def)
       (simp add: vb_file_def mem_file_def)
  have ld: "load_u32 True (replicate 2048 1 @ replicate 2304 0) 0 = Some 0x01010101"
    by (simp add: load_u32_def nth_append be_u32_def)
  have sw: "be32_to_cpu True 0x01010101 = 0x01010101"
    by (simp add: be32_to_cpu_def bswap32_def be_u32_def)
  have m: "scan_magic True vb_file 0 ?i 0 (romDataFns_magic demo_cat)
      = (NotFound, [MagicCompare 0, MagicCompare 1])"
    by (simp add: i demo_cat_def scan_magic.simps ld sw prepend_def)
  have h: "scan_header vb_file 0 ?i 0 (romDataFns_header demo_cat)
      = ((NotFound, ?i), [IsRomSupported Header 0])"
    by (simp add: i demo_cat_def scan_header.simps header_window_def try_fns_def prepend_def)
  have sr: "seekAndRead vb_file 1024 1024 = replicate 1024 1"
    by (simp add: seekAndRead_def file_read_def vb_file_def mem_file_def)
  have w: "footer_window vb_file ?i False
      = (Some (?i\<lparr>header_addr := 1024, header_size := 1024,
                    header_pData := replicate 1024 1 @ drop 1024 (header_pData ?i)\<rparr>),
         [SeekAndRead 1024 1024])"
    by (simp add: i footer_window_def footer_size_def sr buf_write_def Let_def)
  have ft: "scan_footer vb_file 0 ?i False 0 (romDataFns_footer demo_cat)
      = (Found 0 (valid_handler ''VirtualBoy''),
         [SeekAndRead 1024 1024, IsRomSupported Footer 0, NewRomData Footer 0])"
    using w
    by (simp add: demo_cat_def scan_footer.simps try_fns_def strcase_vb valid_handler_def i)
  have s: "staged True demo_cat vb_file 0 ?i
      = (Handler (FromTable Footer 0) (valid_handler ''VirtualBoy''),
         [MagicCompare 0, MagicCompare 1, IsRomSupported Header 0,
          SeekAndRead 1024 1024, IsRomSupported Footer 0, NewRomData Footer 0])"
    using m h ft by (simp add: staged_def i)
  have pv: "\<not> paired_valid demo_env vb_file" using np by (simp add: paired_valid_def)
  show ?thesis
    using s np pv by (simp add: create_unfold fr_vb prepend_def)
qed

theorem create_footer_stage_witness:
  "SeekAndRead 1024 1024 \<in> set (snd (create True demo_env demo_cat stack0 vb_file 0))
   \<and> f_size vb_file \<le> 2 ^ 30
   \<and> file_extension demo_env vb_file = Some ''.vb''
   \<and> length (filter is_footer_read (snd (create True demo_env demo_cat stack0 vb_file 0))) \<le> 1
   \<and> f_size big_vb_file > 2 ^ 30
   \<and> SeekAndRead (2 ^ 30 + 1 - 1024) 1024
        \<notin> set (snd (create True demo_env demo_cat stack0 big_vb_file 0))"
proof -
  have 1: "SeekAndRead 1024 1024 \<in> set (snd (create True demo_env demo_cat stack0 vb_file 0))"
    by (simp add: run_vb)
  note small = create_footer_stage [of vb_file True demo_env demo_cat stack0 0]
  from small 1 have 2: "f_size vb_file \<le> 2 ^ 30"
    using is_footer_read.simps(1) [of 1024 1024] by blast
  from small have 3: "length (filter is_footer_read (snd (create True demo_env demo_cat stack0 vb_file 0))) \<le> 1"
    by blast
  have 4: "f_size big_vb_file > 2 ^ 30" by (simp add: big_vb_file_def mem_file_def)
  note big = create_footer_stage [of big_vb_file True demo_env demo_cat stack0 0]
  have 5: "SeekAndRead (2 ^ 30 + 1 - 1024) 1024
        \<notin> set (snd (create True demo_env demo_cat stack0 big_vb_file 0))"
  proof
    assume "SeekAndRead (2 ^ 30 + 1 - 1024) 1024
        \<in> set (snd (create True demo_env demo_cat stack0 big_vb_file 0))"
    with big 4 have "\<not> is_footer_read (SeekAndRead (2 ^ 30 + 1 - 1024) 1024)" by blast
    then show False by simp
  qed
  from 1 2 3 4 5 ext_vb show ?thesis by simp
qed

section \<open>Properties of the age rating decoder\<close>

declare rp_sprintf_u.simps [simp del]

lemma usa_plain:
  assumes "age_consts_ok c" and "plain_age c rating"
  shows "ageRatingDecode c C_tr (AGE_USA c) rating
           = (case switch_usa (rating AND AGEBF_MIN_AGE_MASK c) of
                Some s \<Rightarrow> s
              | None \<Rightarrow> rp_sprintf_u (unat (rating AND AGEBF_MIN_AGE_MASK c)))"
  using assms by (simp add: ageRatingDecode_def age_consts_ok_def plain_age_def Let_def)

lemma decode_inactive:
  "rating AND AGEBF_ACTIVE c = 0 \<Longrightarrow> ageRatingDecode c C_tr country rating = []"
  by (simp add: ageRatingDecode_def)

lemma decode_no_restriction:
  "no_restriction c rating \<Longrightarrow>
   ageRatingDecode c C_tr country rating = C_tr ''RomFields|AgeRating'' ''All''"
  by (simp add: ageRatingDecode_def no_restriction_def Let_def)

lemma n3ds_0x80:
  "n3ds_slot i \<Longrightarrow> n3ds_age_rating c i 0x80 = AGEBF_ACTIVE c"
  by (simp add: n3ds_age_rating_def n3ds_slot_def)

lemma n3ds_0xA0:
  "n3ds_slot i \<Longrightarrow> n3ds_age_rating c i 0xA0 = AGEBF_ACTIVE c OR AGEBF_NO_RESTRICTION c"
  by (simp add: n3ds_age_rating_def n3ds_slot_def)

lemma n3ds_0x00: "n3ds_age_rating c i 0x00 = 0"
  by (simp add: n3ds_age_rating_def)

lemma active_only_plain:
  assumes "age_consts_ok c"
  shows "plain_age c (AGEBF_ACTIVE c)" and "AGEBF_ACTIVE c AND AGEBF_MIN_AGE_MASK c = 0"
  using assms by (simp_all add: age_consts_ok_def plain_age_def)

lemma active_no_restriction:
  assumes "age_consts_ok c"
  shows "no_restriction c (AGEBF_ACTIVE c OR AGEBF_NO_RESTRICTION c)"
proof -
  have d: "(x OR y) AND z = (x AND z) OR (y AND z)" for x y z :: u16
    by (rule word_ao_dist)
  have a: "AGEBF_NO_RESTRICTION c AND AGEBF_ACTIVE c = 0"
    using assms by (simp add: age_consts_ok_def and.commute)
  show ?thesis
    using assms a by (simp add: no_restriction_def age_consts_ok_def d)
qed

lemma loop_filter:
  "ageRatingsDecode_loop c C_tr newlines i ratings str n
     = (join_entries c C_tr newlines (active_slots c i ratings) str n,
        n + length (active_slots c i ratings))"
proof (induction ratings arbitrary: i str n)
  case Nil
  show ?case by (simp add: active_slots_def)
next
  case (Cons r rest)
  have "[i..<i + length (r # rest)] = i # [Suc i..<i + length (r # rest)]"
    by (rule upt_conv_Cons) simp
  moreover have "i + length (r # rest) = Suc i + length rest" by simp
  ultimately have u: "[i..<i + length (r # rest)] = i # [Suc i..<Suc i + length rest]"
    by (simp only:)
  show ?case
  proof (cases "r AND AGEBF_ACTIVE c = 0")
    case True
    then have "active_slots c i (r # rest) = active_slots c (Suc i) rest"
      unfolding active_slots_def u by simp
    with True Cons.IH [of "Suc i" str n] show ?thesis by simp
  next
    case False
    then have a: "active_slots c i (r # rest) = (i, r) # active_slots c (Suc i) rest"
      unfolding active_slots_def u by simp
    show ?thesis
      using False
      by (simp add: a Cons.IH Let_def separator_def rating_entry_def)
  qed
qed

text \<open>
  Claim C5, as the code has it. For country USA an active rating with none of the
  prohibited, pending, no-restriction and online-play bits, whose age bits are 3, 6, 10,
  13, 17 or 18, decodes to eC, E, E10+, T, M or AO, and with any other age bits to their
  decimal value. An active rating with the no-restriction bit and none of the
  prohibited, pending and online-play bits decodes to the message "All". A rating
  without the active bit decodes to the empty string, and the summary of all ratings is
  made of the active slots only. The bytes 0x80, 0xA0 and 0x00 are raw rating bytes of
  a 3DS file, in a slot the 3DS uses: after the conversion of the 3DS reader they decode
  to "0", to "All" when the message is not translated, and to the empty string.
\<close>

theorem ageRatingDecode_usa:
  assumes "age_consts_ok c"
  shows
    "(plain_age c rating \<longrightarrow>
        (rating AND AGEBF_MIN_AGE_MASK c = 3 \<longrightarrow> ageRatingDecode c C_tr (AGE_USA c) rating = ''eC'')
      \<and> (rating AND AGEBF_MIN_AGE_MASK c = 6 \<longrightarrow> ageRatingDecode c C_tr (AGE_USA c) rating = ''E'')
      \<and> (rating AND AGEBF_MIN_AGE_MASK c = 10 \<longrightarrow> ageRatingDecode c C_tr (AGE_USA c) rating = ''E10+'')
      \<and> (rating AND AGEBF_MIN_AGE_MASK c = 13 \<longrightarrow> ageRatingDecode c C_tr (AGE_USA c) rating = ''T'')
      \<and> (rating AND AGEBF_MIN_AGE_MASK c = 17 \<longrightarrow> ageRatingDecode c C_tr (AGE_USA c) rating = ''M'')
      \<and> (rating AND AGEBF_MIN_AGE_MASK c = 18 \<longrightarrow> ageRatingDecode c C_tr (AGE_USA c) rating = ''AO'')
      \<and> (rating AND AGEBF_MIN_AGE_MASK c \<notin> {3, 6, 10, 13, 17, 18} \<longrightarrow>
            ageRatingDecode c C_tr (AGE_USA c) rating
              = rp_sprintf_u (unat (rating AND AGEBF_MIN_AGE_MASK c))))
     \<and> (n3ds_slot i \<longrightarrow> ageRatingDecode c C_tr (AGE_USA c) (n3ds_age_rating c i 0x80) = ''0'')
     \<and> (no_restriction c rating \<longrightarrow>
           ageRatingDecode c C_tr country rating = C_tr ''RomFields|AgeRating'' ''All'')
     \<and> (n3ds_slot i \<and> C_tr ''RomFields|AgeRating'' ''All'' = ''All'' \<longrightarrow>
           ageRatingDecode c C_tr country (n3ds_age_rating c i 0xA0) = ''All'')
     \<and> (rating AND AGEBF_ACTIVE c = 0 \<longrightarrow> ageRatingDecode c C_tr country rating = [])
     \<and> ageRatingDecode c C_tr country (n3ds_age_rating c i 0x00) = []
     \<and> ageRatingsDecode c C_tr (Some ratings) newlines
         = (if active_slots c 0 ratings = [] then C_tr ''RomFields|AgeRating'' ''None''
            else join_entries c C_tr newlines (active_slots c 0 ratings) [] 0)"
proof -
  have 1: "plain_age c rating \<longrightarrow>
        (rating AND AGEBF_MIN_AGE_MASK c = 3 \<longrightarrow> ageRatingDecode c C_tr (AGE_USA c) rating = ''eC'')
      \<and> (rating AND AGEBF_MIN_AGE_MASK c = 6 \<longrightarrow> ageRatingDecode c C_tr (AGE_USA c) rating = ''E'')
      \<and> (rating AND AGEBF_MIN_AGE_MASK c = 10 \<longrightarrow> ageRatingDecode c C_tr (AGE_USA c) rating = ''E10+'')
      \<and> (rating AND AGEBF_MIN_AGE_MASK c = 13 \<longrightarrow> ageRatingDecode c C_tr (AGE_USA c) rating = ''T'')
      \<and> (rating AND AGEBF_MIN_AGE_MASK c = 17 \<longrightarrow> ageRatingDecode c C_tr (AGE_USA c) rating = ''M'')
      \<and> (rating AND AGEBF_MIN_AGE_MASK c = 18 \<longrightarrow> ageRatingDecode c C_tr (AGE_USA c) rating = ''AO'')
      \<and> (rating AND AGEBF_MIN_AGE_MASK c \<notin> {3, 6, 10, 13, 17, 18} \<longrightarrow>
            ageRatingDecode c C_tr (AGE_USA c) rating
              = rp_sprintf_u (unat (rating AND AGEBF_MIN_AGE_MASK c)))"
    using usa_plain [OF assms, of rating C_tr] by (simp add: switch_usa_def)
  have 2: "n3ds_slot i \<longrightarrow> ageRatingDecode c C_tr (AGE_USA c) (n3ds_age_rating c i 0x80) = ''0''"
    using usa_plain [OF assms active_only_plain(1) [OF assms], of C_tr]
      active_only_plain(2) [OF assms]
    by (simp add: n3ds_0x80 switch_usa_def rp_sprintf_u.simps)
  have 3: "no_restriction c rating \<longrightarrow>
           ageRatingDecode c C_tr country rating = C_tr ''RomFields|AgeRating'' ''All''"
    by (simp add: decode_no_restriction)
  have 4: "n3ds_slot i \<and> C_tr ''RomFields|AgeRating'' ''All'' = ''All'' \<longrightarrow>
           ageRatingDecode c C_tr country (n3ds_age_rating c i 0xA0) = ''All''"
    using decode_no_restriction [OF active_no_restriction [OF assms], of C_tr country]
    by (simp add: n3ds_0xA0)
  have 5: "rating AND AGEBF_ACTIVE c = 0 \<longrightarrow> ageRatingDecode c C_tr country rating = []"
    by (simp add: decode_inactive)
  have 6: "ageRatingDecode c C_tr country (n3ds_age_rating c i 0x00) = []"
    by (simp add: n3ds_0x00 decode_inactive)
  have 7: "ageRatingsDecode c C_tr (Some ratings) newlines
         = (if active_slots c 0 ratings = [] then C_tr ''RomFields|AgeRating'' ''None''
            else join_entries c C_tr newlines (active_slots c 0 ratings) [] 0)"
    by (simp add: ageRatingsDecode_def loop_filter Let_def)
  from 1 2 3 4 5 6 7 show ?thesis by blast
qed

theorem ageRatingDecode_usa_witness:
  "age_consts_ok rom_fields_hpp
   \<and> n3ds_slot 1
   \<and> ageRatingDecode rom_fields_hpp no_gettext 1 (n3ds_age_rating rom_fields_hpp 1 0x80) = ''0''
   \<and> ageRatingDecode rom_fields_hpp no_gettext 1 (n3ds_age_rating rom_fields_hpp 1 0xA0) = ''All''
   \<and> ageRatingDecode rom_fields_hpp no_gettext 1 (n3ds_age_rating rom_fields_hpp 1 0x8D) = ''T''
   \<and> ageRatingDecode rom_fields_hpp no_gettext 1 (n3ds_age_rating rom_fields_hpp 1 0x90) = ''16''
   \<and> ageRatingDecode rom_fields_hpp no_gettext 1 (n3ds_age_rating rom_fields_hpp 1 0x00) = []
   \<and> ageRatingsDecode rom_fields_hpp no_gettext
         (Some (map (\<lambda>(i, b). n3ds_age_rating rom_fields_hpp i b) (zip [0..<16] smdh_ratings))) False
       = ''ESRB=T, USK=All, PEGI=0''"
proof -
  let ?c = rom_fields_hpp
  have ok: "age_consts_ok ?c" by (simp add: age_consts_ok_def rom_fields_hpp_def)
  have sl: "n3ds_slot 1" "n3ds_slot 3" "n3ds_slot 4" by (simp_all add: n3ds_slot_def)
  have usa: "AGE_USA ?c = 1" by (simp add: rom_fields_hpp_def)
  have ng: "no_gettext ''RomFields|AgeRating'' ''All'' = ''All''" by (simp add: no_gettext_def)
  have r13: "n3ds_age_rating ?c 1 0x8D = 0x2D" and r16: "n3ds_age_rating ?c 1 0x90 = 0x30"
    using sl by (simp_all add: n3ds_age_rating_def n3ds_slot_def rom_fields_hpp_def)
  have p: "plain_age ?c 0x2D" "plain_age ?c 0x30"
    by (simp_all add: plain_age_def rom_fields_hpp_def)
  have m: "(0x2D :: u16) AND AGEBF_MIN_AGE_MASK ?c = 13" "(0x30 :: u16) AND AGEBF_MIN_AGE_MASK ?c = 16"
    by (simp_all add: rom_fields_hpp_def)
  have s16: "rp_sprintf_u 16 = ''16''" by (simp add: rp_sprintf_u.simps)
  have conv: "map (\<lambda>(i, b). n3ds_age_rating ?c i b) (zip [0..<16] smdh_ratings)
      = [0, 0x2D, 0, 0xA0, 0x20, 0, 0, 0, 0, 0, 0, 0, 0, 0, 0, 0]"
    by (simp add: smdh_ratings_def n3ds_age_rating_def rom_fields_hpp_def upt_rec)
  have act: "active_slots ?c 0 [0, 0x2D, 0, 0xA0, 0x20, 0, 0, 0, 0, 0, 0, 0, 0, 0, 0, 0]
      = [(1, 0x2D), (3, 0xA0), (4, 0x20)]"
    by (simp add: active_slots_def rom_fields_hpp_def upt_rec)
  note a = ageRatingDecode_usa [OF ok, where C_tr = no_gettext and i = 1 and country = 1]
  from a [where rating = "0x2D"] p(1) m(1) usa r13
  have t: "ageRatingDecode ?c no_gettext 1 (n3ds_age_rating ?c 1 0x8D) = ''T''" by simp
  from a [where rating = "0x30"] p(2) m(2) usa r16 s16
  have n: "ageRatingDecode ?c no_gettext 1 (n3ds_age_rating ?c 1 0x90) = ''16''" by simp
  from a [where rating = 0] sl usa ng
  have z: "ageRatingDecode ?c no_gettext 1 (n3ds_age_rating ?c 1 0x80) = ''0''"
    and al: "ageRatingDecode ?c no_gettext 1 (n3ds_age_rating ?c 1 0xA0) = ''All''"
    and e: "ageRatingDecode ?c no_gettext 1 (n3ds_age_rating ?c 1 0x00) = []"
    by simp_all
  have d3: "ageRatingDecode ?c no_gettext 3 0xA0 = ''All''"
    and d4: "ageRatingDecode ?c no_gettext 4 0x20 = ''0''"
    and d1: "ageRatingDecode ?c no_gettext 1 0x2D = ''T''"
    by (simp_all add: ageRatingDecode_def rom_fields_hpp_def no_gettext_def switch_usa_def
          rp_sprintf_u.simps)
  from ageRatingDecode_usa [OF ok, where C_tr = no_gettext and newlines = False
      and ratings = "[0, 0x2D, 0, 0xA0, 0x20, 0, 0, 0, 0, 0, 0, 0, 0, 0, 0, 0]"]
  have "ageRatingsDecode ?c no_gettext (Some [0, 0x2D, 0, 0xA0, 0x20, 0, 0, 0, 0, 0, 0, 0, 0, 0, 0, 0]) False
      = ''ESRB=T, USK=All, PEGI=0''"
    by (simp add: act separator_def rating_entry_def ageRatingAbbrev_def abbrevs_tbl_def d1 d3 d4)
  with ok sl(1) z al t n e conv show ?thesis by simp
qed

text \<open>
  With the status bits the table does not apply: an active USA rating with age bits 13
  decodes to T followed by the degree sign when the online-play bit is set, and to RP
  when the pending bit is set. The value 0x80 given to the decoder itself is not an
  active rating and decodes to the empty string.
\<close>

theorem ageRatingDecode_status_counterexample:
  "(0x012D :: u16) AND AGEBF_ACTIVE rom_fields_hpp = AGEBF_ACTIVE rom_fields_hpp
   \<and> (0x012D :: u16) AND AGEBF_MIN_AGE_MASK rom_fields_hpp = 13
   \<and> ageRatingDecode rom_fields_hpp no_gettext (AGE_USA rom_fields_hpp) 0x012D
       = ''T'' @ [CHR 0xC2, CHR 0xB0]
   \<and> (0x006D :: u16) AND AGEBF_ACTIVE rom_fields_hpp = AGEBF_ACTIVE rom_fields_hpp
   \<and> (0x006D :: u16) AND AGEBF_MIN_AGE_MASK rom_fields_hpp = 13
   \<and> ageRatingDecode rom_fields_hpp no_gettext (AGE_USA rom_fields_hpp) 0x006D = ''RP''
   \<and> ageRatingDecode rom_fields_hpp no_gettext (AGE_USA rom_fields_hpp) 0x0080 = []"
  by (simp add: ageRatingDecode_def rom_fields_hpp_def no_gettext_def switch_usa_def Let_def)

section \<open>Properties of the field helpers\<close>

lemma cast_int_small: "n < 2 ^ 31 \<Longrightarrow> cast_int n = int n"
proof -
  assume a: "n < 2 ^ 31"
  then have "int n < 2 ^ 31" by (simp add: of_nat_less_iff [of n "2 ^ 31", simplified])
  moreover have "- (2 ^ 31) \<le> int n" by simp
  ultimately have "signed_take_bit 31 (int n) = int n"
    by (rule signed_take_bit_int_eq_self [rotated])
  then show ?thesis by (simp add: cast_int_def signed_of_nat)
qed

lemma new_field_appends:
  "length (fields_v d) < 2 ^ 31 \<Longrightarrow> appends_one d ty (new_field d n ty True p)"
  by (simp add: appends_one_def new_field_def Let_def cast_int_small)

text \<open>
  Claim C9, amended. Given its required inputs (a name; for a bitfield also the list of
  bit names; for list data also the parameters) each helper appends exactly one field,
  valid and tagged with the current tab index, and returns that field's index. When a
  required input is null the helper appends nothing: it returns -1 and leaves the table
  as it was.
\<close>

theorem addField_appends_or_rejects:
  assumes "length (fields_v d) < 2 ^ 31"
  shows "appends_one d RFT_STRING (addField_string k d (Some n) str flags)
       \<and> appends_one d RFT_STRING (addField_string_s k d (Some n) s flags)
       \<and> appends_one d RFT_BITFIELD (addField_bitfield d (Some n) (Some names) elemsPerRow bitfield)
       \<and> appends_one d RFT_LISTDATA (addField_listData k d (Some n) (Some params))
       \<and> appends_one d RFT_DATETIME (addField_dateTime d (Some n) date_time flags)
       \<and> appends_one d RFT_AGE_RATINGS (addField_ageRatings d (Some n) age_ratings)
       \<and> appends_one d RFT_DIMENSIONS (addField_dimensions d (Some n) dimX dimY dimZ)
       \<and> addField_string k d None str flags = (- 1, d)
       \<and> addField_string_s k d None s flags = (- 1, d)
       \<and> addField_bitfield d None bit_names elemsPerRow bitfield = (- 1, d)
       \<and> addField_bitfield d name_p None elemsPerRow bitfield = (- 1, d)
       \<and> addField_listData k d None params_p = (- 1, d)
       \<and> addField_listData k d name_p None = (- 1, d)
       \<and> addField_dateTime d None date_time flags = (- 1, d)
       \<and> addField_ageRatings d None age_ratings = (- 1, d)
       \<and> addField_dimensions d None dimX dimY dimZ = (- 1, d)"
proof -
  note a = new_field_appends [OF assms]
  have 1: "appends_one d RFT_STRING (addField_string k d (Some n) str flags)"
    by (simp add: addField_string_def a)
  have 2: "appends_one d RFT_STRING (addField_string_s k d (Some n) s flags)"
    by (simp add: addField_string_s_def a)
  have 3: "appends_one d RFT_BITFIELD (addField_bitfield d (Some n) (Some names) elemsPerRow bitfield)"
    by (simp add: addField_bitfield_def a)
  have 4: "appends_one d RFT_LISTDATA (addField_listData k d (Some n) (Some params))"
    by (simp add: addField_listData_def a Let_def)
  have 5: "appends_one d RFT_DATETIME (addField_dateTime d (Some n) date_time flags)"
    by (simp add: addField_dateTime_def a)
  have 6: "appends_one d RFT_AGE_RATINGS (addField_ageRatings d (Some n) age_ratings)"
    by (simp add: addField_ageRatings_def a)
  have 7: "appends_one d RFT_DIMENSIONS (addField_dimensions d (Some n) dimX dimY dimZ)"
    by (simp add: addField_dimensions_def a)
  have 8: "addField_string k d None str flags = (- 1, d)"
    "addField_string_s k d None s flags = (- 1, d)"
    "addField_bitfield d None bit_names elemsPerRow bitfield = (- 1, d)"
    "addField_bitfield d name_p None elemsPerRow bitfield = (- 1, d)"
    "addField_listData k d None params_p = (- 1, d)"
    "addField_listData k d name_p None = (- 1, d)"
    "addField_dateTime d None date_time flags = (- 1, d)"
    "addField_ageRatings d None age_ratings = (- 1, d)"
    "addField_dimensions d None dimX dimY dimZ = (- 1, d)"
    by (simp_all add: addField_string_def addField_string_s_def addField_bitfield_def
          addField_listData_def addField_dateTime_def addField_ageRatings_def
          addField_dimensions_def split: option.splits)
  from 1 2 3 4 5 6 7 8 show ?thesis by blast
qed

theorem addField_bitfield_counterexample:
  "addField_bitfield fields0 (Some ''Region Code'') None 3 0 = (- 1, fields0)
   \<and> fields_v (snd (addField_bitfield fields0 (Some ''Region Code'') None 3 0)) = []"
  by (simp add: addField_bitfield_def fields0_def)

theorem addField_appends_or_rejects_witness:
  "length (fields_v fields0) < 2 ^ 31
   \<and> appends_one fields0 RFT_BITFIELD
        (addField_bitfield fields0 (Some ''Region Code'') (Some [''Japan'', ''USA'']) 3 1)
   \<and> fst (addField_bitfield fields0 (Some ''Region Code'') (Some [''Japan'', ''USA'']) 3 1) = 0
   \<and> addField_dimensions fields0 None 64 64 0 = (- 1, fields0)"
proof -
  have l: "length (fields_v fields0) < 2 ^ 31" by (simp add: fields0_def)
  have z: "int (length (fields_v fields0)) = 0" by (simp add: fields0_def)
  from addField_appends_or_rejects [OF l, where n="''Region Code''" and names="[''Japan'', ''USA'']"
      and elemsPerRow=3 and bitfield=1 and dimX=64 and dimY=64 and dimZ=0] l z
  show ?thesis by (simp add: appends_one_def)
qed

section \<open>Properties of the XDBF constructor\<close>

lemma ceiling_header_read:
  "file_read ceiling_file (if f_seek ceiling_file 0 then 0 else f_pos ceiling_file)
     sizeof_XDBF_Header = ceiling_header"
  by (simp add: ceiling_file_def mem_file_def file_read_def sizeof_XDBF_Header_def
      ceiling_header_def)

lemma ceiling_header_fields:
  "magic (overlay_header True ceiling_header) = cpu_to_be32 True (XDBF_MAGIC xdbf_structs_h)"
  "version (overlay_header True ceiling_header) = cpu_to_be32 True (XDBF_VERSION xdbf_structs_h)"
  "unat (be32_to_cpu True (entry_table_length (overlay_header True ceiling_header))) = 1048576"
  by (simp_all add: overlay_header_def ceiling_header_def host_word_def be_word_def bytes_at_def
      cpu_to_be32_def be32_to_cpu_def bswap32_def be_u32_def xdbf_structs_h_def)

text \<open>
  C7. Construction on a file whose header is read in full and carries the right magic
  and version: if the declared entry-table length is 1,048,576 or more, the handler is
  invalid, the file reference is released, the entry table is neither allocated nor
  read and stays as it was; if it is less, the whole table is read with one read of
  length times the entry size. The check of the source is \<^verbatim>\<open>>= 1048576\<close>: a header
  declaring exactly 1,048,576 entries is rejected.
\<close>

theorem xdbf_init_entry_table_ceiling:
  assumes "file_d d = Some f"
    and "hdr = file_read f (if f_seek f 0 then 0 else f_pos f) sizeof_XDBF_Header"
    and "length hdr = sizeof_XDBF_Header"
    and "magic (overlay_header le hdr) = cpu_to_be32 le (XDBF_MAGIC k)"
    and "version (overlay_header le hdr) = cpu_to_be32 le (XDBF_VERSION k)"
    and "n = unat (be32_to_cpu le (entry_table_length (overlay_header le hdr)))"
  shows "if 1048576 \<le> n
         then \<not> isValid_d (fst (xdbf_init k le d)) \<and> file_d (fst (xdbf_init k le d)) = None
              \<and> entryTable (fst (xdbf_init k le d)) = entryTable d
              \<and> snd (xdbf_init k le d) = [XRewind, XRead sizeof_XDBF_Header, XUnrefFile]
         else take 4 (snd (xdbf_init k le d))
              = [XRewind, XRead sizeof_XDBF_Header, XAlloc (n * sizeof_XDBF_Entry),
                 XRead (n * sizeof_XDBF_Entry)]"
proof -
  have sup: "0 \<le> xdbf_isRomSupported_static k le
      \<lparr>header_addr = 0, header_size = of_nat sizeof_XDBF_Header, header_pData = hdr,
       ext = None, szFile = 0\<rparr>"
    using assms(4,5)
    by (simp add: xdbf_isRomSupported_static_def sizeof_XDBF_Header_def sizeof_XDBF_Entry_def)
  have le_iff: "(1048576 \<le> be32_to_cpu le (entry_table_length (overlay_header le hdr)))
      = (1048576 \<le> n)"
    unfolding assms(6) by (simp add: word_le_nat_alt)
  show ?thesis
    using assms(1,3) sup le_iff assms(2)[symmetric] assms(6)[symmetric]
    by (simp add: xdbf_init_def Let_def release_file_def)
qed

theorem xdbf_init_entry_table_ceiling_witness:
  "\<not> isValid_d (fst (Xbox360_XDBF xdbf_structs_h True (Some ceiling_file) []))
   \<and> file_d (fst (Xbox360_XDBF xdbf_structs_h True (Some ceiling_file) [])) = None
   \<and> entryTable (fst (Xbox360_XDBF xdbf_structs_h True (Some ceiling_file) [])) = []
   \<and> snd (Xbox360_XDBF xdbf_structs_h True (Some ceiling_file) [])
     = [XRewind, XRead 24, XUnrefFile]"
proof -
  let ?d = "Xbox360_XDBF_Private xdbf_structs_h (Some ceiling_file) []"
  have a: "file_d ?d = Some ceiling_file"
    by (simp add: Xbox360_XDBF_Private_def)
  have b: "length ceiling_header = sizeof_XDBF_Header"
    by (simp add: ceiling_header_def sizeof_XDBF_Header_def)
  have e: "entryTable ?d = []"
    by (simp add: Xbox360_XDBF_Private_def)
  note t = xdbf_init_entry_table_ceiling [OF a ceiling_header_read [symmetric] b
      ceiling_header_fields(1) ceiling_header_fields(2) ceiling_header_fields(3) [symmetric]]
  show ?thesis
    using t e by (simp add: Xbox360_XDBF_def sizeof_XDBF_Header_def)
qed

section \<open>Properties of the lazy loads\<close>

lemma loadStringTable_size_ok:
  assumes "file_d d = Some f" and "isValid_d d" and "reaches_string_table k d langID"
    and "sizeof_XDBF_XSTR_Header < declared_length le (string_table_entry d langID)"
    and "declared_length le (string_table_entry d langID) \<le> 1024 * 1024"
  shows "take 1 (snd (snd (loadStringTable k le d langID)))
         = [XAlloc (declared_length le (string_table_entry d langID))]"
  using assms
  by (simp add: loadStringTable_def reaches_string_table_def declared_length_def
      string_table_entry_def Let_def)

text \<open>
  C8. On a valid handler with an open file: the load of a string table that gets as far
  as the size check, for an entry whose declared length is not larger than the table
  header or exceeds 1 MiB, fails with the out-of-range-size error; so does the load of an
  image that is not cached, for a resource whose declared length is below 16 bytes or
  exceeds 1 MiB. In both cases nothing is allocated, nothing is read, and the state of
  the handler, its validity included, is unchanged.
\<close>

theorem load_out_of_range_size:
  assumes "file_d d = Some f" and "isValid_d d"
  shows "(reaches_string_table k d langID
          \<and> (declared_length le (string_table_entry d langID) \<le> sizeof_XDBF_XSTR_Header
             \<or> 1024 * 1024 < declared_length le (string_table_entry d langID))
          \<longrightarrow> loadStringTable k le d langID = (Inl OutOfRangeSize, d, []))
       \<and> (map_images d image_id = None
          \<and> findResource le (entryTable d) (XDBF_SPA_NAMESPACE_IMAGE k) image_id = Some entry
          \<and> (declared_length le entry < 16 \<or> 1024 * 1024 < declared_length le entry)
          \<longrightarrow> loadImage k le env d image_id = (Inl OutOfRangeSize, d, []))"
proof (intro conjI impI)
  assume "reaches_string_table k d langID
          \<and> (declared_length le (string_table_entry d langID) \<le> sizeof_XDBF_XSTR_Header
             \<or> 1024 * 1024 < declared_length le (string_table_entry d langID))"
  then show "loadStringTable k le d langID = (Inl OutOfRangeSize, d, [])"
    using assms
    by (simp add: loadStringTable_def reaches_string_table_def declared_length_def
        string_table_entry_def Let_def)
next
  assume a: "map_images d image_id = None
          \<and> findResource le (entryTable d) (XDBF_SPA_NAMESPACE_IMAGE k) image_id = Some entry
          \<and> (declared_length le entry < 16 \<or> 1024 * 1024 < declared_length le entry)"
  then have "entryTable d \<noteq> []"
    by (auto simp: findResource_def)
  then show "loadImage k le env d image_id = (Inl OutOfRangeSize, d, [])"
    using assms a by (simp add: loadImage_def declared_length_def Let_def)
qed

lemma oversize_string_table:
  "reaches_string_table xdbf_structs_h oversize_xdbf 1"
  "declared_length True (string_table_entry oversize_xdbf 1) = 2097152"
  by (simp_all add: reaches_string_table_def oversize_xdbf_def xdbf_structs_h_def
      XDBF_LANGUAGE_UNKNOWN_def declared_length_def string_table_entry_def
      cpu_to_be32_def be32_to_cpu_def bswap32_def be_u32_def)

lemma oversize_image:
  "findResource True (entryTable oversize_xdbf) (XDBF_SPA_NAMESPACE_IMAGE xdbf_structs_h) 0x8000
   = Some (entryTable oversize_xdbf ! 1)"
  "declared_length True (entryTable oversize_xdbf ! 1) = 8"
  by (simp_all add: findResource_def oversize_xdbf_def xdbf_structs_h_def declared_length_def
      cpu_to_be32_def be32_to_cpu_def bswap32_def be_u32_def cpu_to_be16_def bswap16_def
      cpu_to_be64_def bswap64_def Let_def)

theorem load_out_of_range_size_witness:
  "isValid_d oversize_xdbf
   \<and> loadStringTable xdbf_structs_h True oversize_xdbf 1 = (Inl OutOfRangeSize, oversize_xdbf, [])
   \<and> loadImage xdbf_structs_h True no_decoder oversize_xdbf 0x8000
     = (Inl OutOfRangeSize, oversize_xdbf, [])"
proof -
  have a: "file_d oversize_xdbf = Some oversize_file" and b: "isValid_d oversize_xdbf"
    and c: "map_images oversize_xdbf 0x8000 = None"
    by (simp_all add: oversize_xdbf_def)
  note t = load_out_of_range_size [OF a b, where k = xdbf_structs_h and le = True and langID = 1
      and image_id = "0x8000" and entry = "entryTable oversize_xdbf ! 1" and env = no_decoder]
  show ?thesis
    using t b c oversize_string_table oversize_image by simp
qed

section \<open>Properties of the title lookup\<close>

lemma loadStringTable_fail:
  "loadStringTable k le d l = (Inl e, d', ev) \<Longrightarrow> d' = d"
  by (auto simp: loadStringTable_def Let_def split: if_splits option.splits)

lemma strTbls_update_same:
  "strTbls d ! i = Some vec \<Longrightarrow> d\<lparr>strTbls := (strTbls d)[i := Some vec]\<rparr> = d"
  using list_update_id [of "strTbls d" i] by simp

lemma loadStringTable_ok:
  "loadStringTable k le d l = (Inr vec, d', ev)
   \<Longrightarrow> lang_in_range k l \<and> d' = d\<lparr>strTbls := (strTbls d)[nat l := Some vec]\<rparr>"
  by (auto simp: loadStringTable_def Let_def lang_in_range_def strTbls_update_same
      split: if_splits option.splits)

lemma try_language_None:
  "try_language k le d l = None \<Longrightarrow> \<exists>e ev. loadStringTable k le d l = (Inl e, d, ev)"
  using loadStringTable_fail [of k le d l]
  by (cases "loadStringTable k le d l" rule: prod_cases3)
     (auto simp: try_language_def split: sum.splits)

lemma try_language_Some:
  "try_language k le d l = Some d'
   \<Longrightarrow> \<exists>vec ev. loadStringTable k le d l
                 = (Inr vec, d\<lparr>strTbls := (strTbls d)[nat l := Some vec]\<rparr>, ev)
              \<and> d' = d\<lparr>strTbls := (strTbls d)[nat l := Some vec], m_langID := l\<rparr>
              \<and> lang_in_range k l"
  using loadStringTable_ok [of k le d l]
  by (cases "loadStringTable k le d l" rule: prod_cases3)
     (auto simp: try_language_def split: sum.splits)

lemma try_language_out_of_range:
  "\<not> lang_in_range k l \<Longrightarrow> try_language k le d l = None"
  by (auto simp: try_language_def loadStringTable_def lang_in_range_def)

lemma getLanguageID_english_eq:
  "getLanguageID_english k le d requested m =
     (if requested \<noteq> XDBF_LANGUAGE_ENGLISH \<and> m \<noteq> XDBF_LANGUAGE_ENGLISH
      then (case try_language k le d XDBF_LANGUAGE_ENGLISH of
              Some d' \<Rightarrow> (Some XDBF_LANGUAGE_ENGLISH, d')
            | None \<Rightarrow> (Some XDBF_LANGUAGE_UNKNOWN, d))
      else (Some XDBF_LANGUAGE_UNKNOWN, d))"
  using loadStringTable_fail [of k le d XDBF_LANGUAGE_ENGLISH]
  by (cases "loadStringTable k le d XDBF_LANGUAGE_ENGLISH" rule: prod_cases3)
     (auto simp: getLanguageID_english_def try_language_def split: sum.splits)

lemma getLanguageID_xstc_eq:
  assumes "file_d d = Some f"
  shows "getLanguageID_xstc k le d requested =
     (case default_marker k le d of
        None \<Rightarrow> (Some XDBF_LANGUAGE_UNKNOWN, d)
      | Some m \<Rightarrow>
          if m \<noteq> requested
          then (if \<not> lang_in_range k m then (Some XDBF_LANGUAGE_UNKNOWN, d)
                else case try_language k le d m of
                       Some d' \<Rightarrow> (Some m, d')
                     | None \<Rightarrow> getLanguageID_english k le d requested m)
          else getLanguageID_english k le d requested m)"
proof (cases "findResource le (entryTable d) (XDBF_SPA_NAMESPACE_METADATA k) (ucast (XDBF_XSTC_MAGIC k))")
  case None
  then show ?thesis
    by (simp add: getLanguageID_xstc_def default_marker_def)
next
  case (Some entry)
  let ?bytes = "seekAndRead f (uint (be32_to_cpu le (offset_e entry) + data_offset d)) sizeof_XDBF_XSTC"
  let ?m = "sint (be32_to_cpu le (default_language (overlay_xstc le ?bytes)))"
  let ?valid = "unat (be32_to_cpu le (length_e entry)) = sizeof_XDBF_XSTC
      \<and> length ?bytes = sizeof_XDBF_XSTC
      \<and> xstc_magic (overlay_xstc le ?bytes) = cpu_to_be32 le (XDBF_XSTC_MAGIC k)
      \<and> xstc_version (overlay_xstc le ?bytes) = cpu_to_be32 le (XDBF_XSTC_VERSION k)
      \<and> xstc_size (overlay_xstc le ?bytes) = cpu_to_be32 le (of_nat (sizeof_XDBF_XSTC - 4))"
  have dm: "default_marker k le d = (if ?valid then Some ?m else None)"
    using Some assms by (simp add: default_marker_def declared_length_def Let_def)
  have gx: "getLanguageID_xstc k le d requested =
      (if \<not> ?valid then (Some XDBF_LANGUAGE_UNKNOWN, d)
       else if ?m \<noteq> requested
       then (if \<not> lang_in_range k ?m then (Some XDBF_LANGUAGE_UNKNOWN, d)
             else (case loadStringTable k le d ?m of
                     (Inl e, d', ev) \<Rightarrow> getLanguageID_english k le d' requested ?m
                   | (Inr vec, d', ev) \<Rightarrow> (Some ?m, d'\<lparr>m_langID := ?m\<rparr>)))
       else getLanguageID_english k le d requested ?m)"
    using Some assms
    by (simp add: getLanguageID_xstc_def Let_def lang_in_range_def not_le not_less)
  have step: "(case loadStringTable k le d ?m of
                 (Inl e, d', ev) \<Rightarrow> getLanguageID_english k le d' requested ?m
               | (Inr vec, d', ev) \<Rightarrow> (Some ?m, d'\<lparr>m_langID := ?m\<rparr>))
              = (case try_language k le d ?m of
                   Some d' \<Rightarrow> (Some ?m, d')
                 | None \<Rightarrow> getLanguageID_english k le d requested ?m)"
    using loadStringTable_fail [of k le d ?m]
    by (cases "loadStringTable k le d ?m" rule: prod_cases3)
       (auto simp: try_language_def split: sum.splits)
  show ?thesis
    unfolding gx dm step by simp
qed

lemma getLanguageID_eq:
  assumes "m_langID d = XDBF_LANGUAGE_UNKNOWN"
  shows "getLanguageID k le env d =
     (case try_language k le d (getXbox360Language env) of
        Some d' \<Rightarrow> (Some (getXbox360Language env), d')
      | None \<Rightarrow> getLanguageID_xstc k le d (getXbox360Language env))"
proof (cases "lang_in_range k (getXbox360Language env)")
  case False
  then show ?thesis
    using assms
    by (auto simp: getLanguageID_def try_language_out_of_range Let_def lang_in_range_def)
next
  case True
  have "(case loadStringTable k le d (getXbox360Language env) of
           (Inl e, d', ev) \<Rightarrow> getLanguageID_xstc k le d' (getXbox360Language env)
         | (Inr vec, d', ev) \<Rightarrow>
             (Some (getXbox360Language env), d'\<lparr>m_langID := getXbox360Language env\<rparr>))
        = (case try_language k le d (getXbox360Language env) of
             Some d' \<Rightarrow> (Some (getXbox360Language env), d')
           | None \<Rightarrow> getLanguageID_xstc k le d (getXbox360Language env))"
    using loadStringTable_fail [of k le d "getXbox360Language env"]
    by (cases "loadStringTable k le d (getXbox360Language env)" rule: prod_cases3)
       (auto simp: try_language_def split: sum.splits)
  then show ?thesis
    using assms True by (simp add: getLanguageID_def Let_def lang_in_range_def)
qed

text \<open>
  The language \<^verbatim>\<open>getLanguageID\<close> returns is the one of the chain; the state it leaves
  is the state before the call, or that state with the table of the language cached.
\<close>

lemma first_loadable_pair:
  "first_loadable k le d [m, e] =
     (if try_language k le d m \<noteq> None then m
      else if try_language k le d e \<noteq> None then e else XDBF_LANGUAGE_UNKNOWN)"
  by (simp add: first_loadable_def table_loads_def)

lemma getLanguageID_chain:
  assumes "m_langID d = XDBF_LANGUAGE_UNKNOWN" and "file_d d = Some f"
  shows "fst (getLanguageID k le env d) = Some (language_chain k le env d)
         \<and> (snd (getLanguageID k le env d) = d
            \<or> try_language k le d (language_chain k le env d)
               = Some (snd (getLanguageID k le env d)))"
proof (cases "try_language k le d (getXbox360Language env)")
  case (Some d')
  then show ?thesis
    using assms(1)
    by (simp add: getLanguageID_eq language_chain_def table_loads_def Let_def)
next
  case None
  note req = None
  have g: "getLanguageID k le env d = getLanguageID_xstc k le d (getXbox360Language env)"
    using assms(1) req by (simp add: getLanguageID_eq)
  show ?thesis
  proof (cases "default_marker k le d")
    case None
    then show ?thesis
      unfolding g getLanguageID_xstc_eq [OF assms(2)]
      using req by (simp add: language_chain_def table_loads_def Let_def)
  next
    case (Some m)
    note marker = Some
    show ?thesis
    proof (cases "m \<noteq> getXbox360Language env \<and> \<not> lang_in_range k m")
      case True
      then show ?thesis
        unfolding g getLanguageID_xstc_eq [OF assms(2)]
        using req marker by (simp add: language_chain_def table_loads_def Let_def)
    next
      case False
      note ok = False
      have c: "language_chain k le env d = first_loadable k le d [m, XDBF_LANGUAGE_ENGLISH]"
        using req marker ok by (auto simp: language_chain_def table_loads_def Let_def)
      show ?thesis
      proof (cases "try_language k le d m")
        case (Some dm)
        then have "m \<noteq> getXbox360Language env"
          using req by auto
        then show ?thesis
          unfolding g getLanguageID_xstc_eq [OF assms(2)] c first_loadable_pair
          using marker ok Some by auto
      next
        case None
        note tm = None
        have x: "getLanguageID_xstc k le d (getXbox360Language env)
                 = getLanguageID_english k le d (getXbox360Language env) m"
          unfolding getLanguageID_xstc_eq [OF assms(2)]
          using marker ok tm by auto
        show ?thesis
        proof (cases "try_language k le d XDBF_LANGUAGE_ENGLISH")
          case None
          then show ?thesis
            unfolding g x c first_loadable_pair getLanguageID_english_eq
            using tm by simp
        next
          case (Some de)
          then have "getXbox360Language env \<noteq> XDBF_LANGUAGE_ENGLISH"
            and "m \<noteq> XDBF_LANGUAGE_ENGLISH"
            using req tm by auto
          then show ?thesis
            unfolding g x c first_loadable_pair getLanguageID_english_eq
            using tm Some by simp
        qed
      qed
    qed
  qed
qed

declare scan_strings.simps [simp del]

lemma loadString_table:
  assumes "loadStringTable k le d l = (Inr vec, d', ev)"
  shows "fst (loadString k le env d l string_id) = string_in le env vec string_id"
proof -
  have r: "lang_in_range k l"
    using loadStringTable_ok [OF assms] by simp
  show ?thesis
  proof (cases "strTbls d ! nat l")
    case None
    then show ?thesis
      using r assms
      by (simp add: loadString_def string_in_def lang_in_range_def XDBF_LANGUAGE_UNKNOWN_def
          Let_def split: scan_out.splits)
  next
    case (Some v)
    then have "v = vec"
      using r assms by (simp add: loadStringTable_def lang_in_range_def)
    then show ?thesis
      using r Some
      by (simp add: loadString_def string_in_def lang_in_range_def XDBF_LANGUAGE_UNKNOWN_def
          Let_def split: scan_out.splits)
  qed
qed

lemma loadString_cached:
  assumes "strTbls d ! nat l = Some vec" and "lang_in_range k l"
  shows "fst (loadString k le env d l string_id) = string_in le env vec string_id"
  using assms
  by (simp add: loadString_def string_in_def lang_in_range_def XDBF_LANGUAGE_UNKNOWN_def
      Let_def split: scan_out.splits)

lemma loadString_after_try:
  assumes "try_language k le d l = Some d'" and "length (strTbls d) = nat (XDBF_LANGUAGE_MAX k)"
  shows "fst (loadString k le env d' l string_id) = fst (loadString k le env d l string_id)"
proof -
  obtain vec ev where ld: "loadStringTable k le d l
        = (Inr vec, d\<lparr>strTbls := (strTbls d)[nat l := Some vec]\<rparr>, ev)"
    and d': "d' = d\<lparr>strTbls := (strTbls d)[nat l := Some vec], m_langID := l\<rparr>"
    and r: "lang_in_range k l"
    using try_language_Some [OF assms(1)] by blast
  have "nat l < length (strTbls d)"
    using r assms(2) by (simp add: lang_in_range_def XDBF_LANGUAGE_UNKNOWN_def)
  then have "strTbls d' ! nat l = Some vec"
    unfolding d' by simp
  then show ?thesis
    using loadString_cached [OF _ r] loadString_table [OF ld] by simp
qed

lemma getString_title_eq:
  assumes "m_langID d = XDBF_LANGUAGE_UNKNOWN" and "file_d d = Some f"
    and "length (strTbls d) = nat (XDBF_LANGUAGE_MAX k)" and "XDBF_ID_TITLE k \<noteq> 0"
  shows "fst (getString_title k le env d)
         = fst (loadString k le env d (language_chain k le env d) (XDBF_ID_TITLE k))"
proof -
  obtain d' where g: "getLanguageID k le env d = (Some (language_chain k le env d), d')"
    and s: "d' = d \<or> try_language k le d (language_chain k le env d) = Some d'"
    using getLanguageID_chain [OF assms(1,2), of k le env]
    by (cases "getLanguageID k le env d") auto
  have "fst (loadString k le env d' (language_chain k le env d) (XDBF_ID_TITLE k))
        = fst (loadString k le env d (language_chain k le env d) (XDBF_ID_TITLE k))"
    using s loadString_after_try [OF _ assms(3)] by auto
  then show ?thesis
    using g assms(4) by (simp add: getString_title_def)
qed

text \<open>The tables of the example container, and what they hold for the title.\<close>

lemma spa_english_table:
  "loadStringTable xdbf_structs_h True (spa_xdbf dl) 1
   = (Inr en_table, (spa_xdbf dl)\<lparr>strTbls := (strTbls (spa_xdbf dl))[1 := Some en_table]\<rparr>,
      [XAlloc 20, XSeekAndRead 97 20])"
  by (simp add: loadStringTable_def spa_xdbf_def xdbf_structs_h_def XDBF_LANGUAGE_UNKNOWN_def
      sizeof_XDBF_XSTR_Header_def Let_def cpu_to_be32_def be32_to_cpu_def bswap32_def be_u32_def
      seekAndRead_def file_read_def spa_file_def mem_file_def spa_bytes_def host_word_def
      be_word_def bytes_at_def en_table_def)

lemma spa_japanese_table:
  "loadStringTable xdbf_structs_h True (spa_xdbf dl) 2
   = (Inr jp_table, (spa_xdbf dl)\<lparr>strTbls := (strTbls (spa_xdbf dl))[2 := Some jp_table]\<rparr>,
      [XAlloc 19, XSeekAndRead 78 19])"
  by (simp add: loadStringTable_def spa_xdbf_def xdbf_structs_h_def XDBF_LANGUAGE_UNKNOWN_def
      sizeof_XDBF_XSTR_Header_def Let_def cpu_to_be32_def be32_to_cpu_def bswap32_def be_u32_def
      seekAndRead_def file_read_def spa_file_def mem_file_def spa_bytes_def host_word_def
      be_word_def bytes_at_def jp_table_def)

lemma spa_german_table:
  "loadStringTable xdbf_structs_h True (spa_xdbf dl) 3 = (Inl NoStringTable, spa_xdbf dl, [])"
  by (simp add: loadStringTable_def spa_xdbf_def xdbf_structs_h_def XDBF_LANGUAGE_UNKNOWN_def
      spa_file_def Let_def)

lemma spa_title_strings:
  "string_in True german_system en_table 0x8000 = Some [0x48, 0x69]"
  "string_in True german_system jp_table 0x8000 = Some []"
  by code_simp+

lemma spa_marker:
  "default_marker xdbf_structs_h True (spa_xdbf 2) = Some 2"
  "default_marker xdbf_structs_h True (spa_xdbf 1) = Some 1"
  by (simp_all add: default_marker_def findResource_def spa_xdbf_def xdbf_structs_h_def
      declared_length_def sizeof_XDBF_XSTC_def Let_def cpu_to_be16_def bswap16_def
      cpu_to_be64_def bswap64_def cpu_to_be32_def be32_to_cpu_def bswap32_def be_u32_def
      seekAndRead_def file_read_def spa_file_def mem_file_def spa_bytes_def overlay_xstc_def
      host_word_def be_word_def bytes_at_def)

lemma spa_tries:
  "try_language xdbf_structs_h True (spa_xdbf dl) 3 = None"
  "try_language xdbf_structs_h True (spa_xdbf dl) 2 \<noteq> None"
  "try_language xdbf_structs_h True (spa_xdbf dl) 1 \<noteq> None"
  by (simp_all add: try_language_def spa_german_table spa_japanese_table spa_english_table)

lemma spa_consts:
  "XDBF_LANGUAGE_MAX xdbf_structs_h = 13"
  "getXbox360Language german_system = 3"
  "strTbls (spa_xdbf dl) = replicate 13 None"
  by (simp_all add: xdbf_structs_h_def german_system_def spa_xdbf_def)

lemma spa_chain:
  "language_chain xdbf_structs_h True german_system (spa_xdbf 2) = 2"
  "language_chain xdbf_structs_h True german_system (spa_xdbf 1) = 1"
  using spa_tries [of 2] spa_tries [of 1]
  by (simp_all add: language_chain_def table_loads_def spa_consts spa_marker
      lang_in_range_def XDBF_LANGUAGE_UNKNOWN_def XDBF_LANGUAGE_ENGLISH_def
      first_loadable_pair)

lemma spa_fresh:
  "m_langID (spa_xdbf dl) = XDBF_LANGUAGE_UNKNOWN"
  "file_d (spa_xdbf dl) = Some (spa_file dl)"
  "length (strTbls (spa_xdbf dl)) = nat (XDBF_LANGUAGE_MAX xdbf_structs_h)"
  "XDBF_ID_TITLE xdbf_structs_h = 0x8000"
  by (simp_all add: spa_xdbf_def xdbf_structs_h_def)

text \<open>
  C6, as the code has it. On a freshly constructed container with an open file, the
  language of a title lookup is the first language of the chain whose string table
  loads: the requested (system) language; else, if the default-language marker is
  missing or malformed, none; else the marker's language (none if it differs from the
  requested one and is outside the language range); else English; else none. The title
  is the string of that one language, empty if the id is absent there: the chain stops
  at the first table that loads, not at the first non-empty string.
\<close>

theorem getString_language_chain:
  assumes "m_langID d = XDBF_LANGUAGE_UNKNOWN" and "file_d d = Some f"
    and "length (strTbls d) = nat (XDBF_LANGUAGE_MAX k)" and "XDBF_ID_TITLE k \<noteq> 0"
  shows "fst (getLanguageID k le env d) = Some (language_chain k le env d)
         \<and> fst (getString_title k le env d)
           = fst (loadString k le env d (language_chain k le env d) (XDBF_ID_TITLE k))"
  using getLanguageID_chain [OF assms(1,2), of k le env] getString_title_eq [OF assms, of le env]
  by simp

theorem getString_language_chain_witness:
  "fst (getLanguageID xdbf_structs_h True german_system (spa_xdbf 1)) = Some XDBF_LANGUAGE_ENGLISH
   \<and> fst (getString_title xdbf_structs_h True german_system (spa_xdbf 1)) = Some [0x48, 0x69]"
proof -
  have t: "XDBF_ID_TITLE xdbf_structs_h \<noteq> 0"
    by (simp add: xdbf_structs_h_def)
  note c = getString_language_chain [OF spa_fresh(1) spa_fresh(2) spa_fresh(3) t,
      where dl1 = 1 and le = True and env = german_system]
  have "fst (loadString xdbf_structs_h True german_system (spa_xdbf 1) 1 0x8000)
        = Some [0x48, 0x69]"
    using loadString_table [OF spa_english_table] by (simp add: spa_title_strings)
  then show ?thesis
    using c by (simp add: spa_chain spa_fresh(4) XDBF_LANGUAGE_ENGLISH_def)
qed

theorem getString_german_counterexample:
  "getXbox360Language german_system = 3
   \<and> strTblIndexes (spa_xdbf 2) = [- 1, 1, 0, - 1, - 1, - 1, - 1, - 1, - 1, - 1, - 1, - 1, - 1]
   \<and> fst (loadString xdbf_structs_h True german_system (spa_xdbf 2) XDBF_LANGUAGE_ENGLISH 0x8000)
     = Some [0x48, 0x69]
   \<and> fst (loadString xdbf_structs_h True german_system (spa_xdbf 2) 3 0x8000) = Some []
   \<and> fst (getString_title xdbf_structs_h True german_system (spa_xdbf 2)) = Some []"
proof -
  have t: "XDBF_ID_TITLE xdbf_structs_h \<noteq> 0"
    by (simp add: xdbf_structs_h_def)
  have en: "fst (loadString xdbf_structs_h True german_system (spa_xdbf 2) 1 0x8000)
        = Some [0x48, 0x69]"
    using loadString_table [OF spa_english_table] by (simp add: spa_title_strings)
  have jp: "fst (loadString xdbf_structs_h True german_system (spa_xdbf 2) 2 0x8000) = Some []"
    using loadString_table [OF spa_japanese_table] by (simp add: spa_title_strings)
  have de: "fst (loadString xdbf_structs_h True german_system (spa_xdbf 2) 3 0x8000) = Some []"
    by (simp add: loadString_def spa_german_table spa_consts)
  have ti: "fst (getString_title xdbf_structs_h True german_system (spa_xdbf 2)) = Some []"
    using getString_title_eq [OF spa_fresh(1) spa_fresh(2) spa_fresh(3) t,
        where dl1 = 2 and le = True and env = german_system]
    by (simp add: spa_chain spa_fresh(4) jp)
  have ix: "strTblIndexes (spa_xdbf 2)
        = [- 1, 1, 0, - 1, - 1, - 1, - 1, - 1, - 1, - 1, - 1, - 1, - 1]"
    by (simp add: spa_xdbf_def)
  show ?thesis
    using en de ti ix by (simp add: spa_consts XDBF_LANGUAGE_ENGLISH_def)
qed

lemma spa_header_read:
  "file_read (spa_file dl) 0 24 = take 24 (spa_bytes dl)"
  "file_read (spa_file dl) 24 54 = take 54 (drop 24 (spa_bytes dl))"
  "f_seek (spa_file dl) 0"
  by (simp_all add: spa_file_def mem_file_def file_read_def)

lemma spa_header_overlay:
  "overlay_header True (take 24 (spa_bytes dl))
   = \<lparr>magic = cpu_to_be32 True 0x58444246, version = cpu_to_be32 True 0x00010000,
      entry_table_length = cpu_to_be32 True 3, entry_count = cpu_to_be32 True 3,
      free_space_table_length = cpu_to_be32 True 0, free_space_table_count = cpu_to_be32 True 0\<rparr>"
  by (simp add: overlay_header_def spa_bytes_def host_word_def be_word_def bytes_at_def
      cpu_to_be32_def bswap32_def be_u32_def)

lemma spa_entries_overlay:
  "overlay_entries True 3 (take 54 (drop 24 (spa_bytes dl))) = entryTable (spa_xdbf dl)"
  by (simp add: overlay_entries_def overlay_entry_def spa_bytes_def host_word_def be_word_def
      bytes_at_def sizeof_XDBF_Entry_def upt_conv_Cons spa_xdbf_def cpu_to_be32_def bswap32_def
      be_u32_def cpu_to_be16_def bswap16_def cpu_to_be64_def bswap64_def)

lemma replicate_13:
  "replicate 13 x = [x, x, x, x, x, x, x, x, x, x, x, x, x]"
  by (simp add: numeral_eq_Suc)

lemma spa_indexes:
  "initStrTblIndexes_loop xdbf_structs_h True (entryTable (spa_xdbf dl)) 0 0 (replicate 13 (- 1))
   = (strTblIndexes (spa_xdbf dl), 2)"
  by (simp add: replicate_13 spa_xdbf_def xdbf_structs_h_def cpu_to_be16_def bswap16_def
      be64_to_cpu_def cpu_to_be64_def bswap64_def)

lemma spa_xdbf_constructed:
  "Xbox360_XDBF xdbf_structs_h True (Some (spa_file dl)) uninit
   = (spa_xdbf dl, [XRewind, XRead 24, XAlloc 54, XRead 54])"
proof -
  have sup: "0 \<le> xdbf_isRomSupported_static xdbf_structs_h True
      \<lparr>header_addr = 0, header_size = 24,
       header_pData = take 24 (spa_bytes dl), ext = None, szFile = 0\<rparr>"
    by (simp add: xdbf_isRomSupported_static_def spa_header_overlay sizeof_XDBF_Header_def
        sizeof_XDBF_Entry_def xdbf_structs_h_def)
  have sw: "be32_to_cpu True (cpu_to_be32 True 3) = (3 :: u32)"
    "be32_to_cpu True (cpu_to_be32 True 0) = (0 :: u32)"
    "be32_to_cpu True (cpu_to_be32 True 0x00010000) = (0x00010000 :: u32)"
    by (simp_all add: cpu_to_be32_def be32_to_cpu_def bswap32_def be_u32_def)
  have len: "length (spa_bytes dl) = 133"
    by (simp add: spa_bytes_def)
  have ne: "entryTable (spa_xdbf dl) \<noteq> []"
    by (simp add: spa_xdbf_def)
  have mx: "nat (XDBF_LANGUAGE_MAX xdbf_structs_h) = 13"
    by (simp add: xdbf_structs_h_def)
  show ?thesis
    using sup
    by (simp add: Xbox360_XDBF_def Xbox360_XDBF_Private_def xdbf_init_def Let_def
        spa_header_read spa_header_overlay spa_entries_overlay sw len sizeof_XDBF_Header_def
        sizeof_XDBF_Entry_def sizeof_XDBF_Free_Space_Entry_def initStrTblIndexes_def ne mx
        spa_indexes zero_header_def)
       (simp add: spa_xdbf_def)
qed

section \<open>The example containers: construction and list rows\<close>

lemma oversize_read:
  "file_read oversize_file 0 24 = take 24 oversize_bytes"
  "file_read oversize_file 24 36 = drop 24 oversize_bytes"
  "f_seek oversize_file 0"
  "length oversize_bytes = 60"
  by (simp_all add: oversize_file_def mem_file_def file_read_def oversize_bytes_def)

lemma oversize_header_overlay:
  "overlay_header True (take 24 oversize_bytes)
   = \<lparr>magic = cpu_to_be32 True 0x58444246, version = cpu_to_be32 True 0x00010000,
      entry_table_length = cpu_to_be32 True 2, entry_count = cpu_to_be32 True 2,
      free_space_table_length = cpu_to_be32 True 0, free_space_table_count = cpu_to_be32 True 0\<rparr>"
  by (simp add: overlay_header_def oversize_bytes_def host_word_def be_word_def bytes_at_def
      cpu_to_be32_def bswap32_def be_u32_def)

lemma oversize_entries_overlay:
  "overlay_entries True 2 (drop 24 oversize_bytes) = entryTable oversize_xdbf"
  by (simp add: overlay_entries_def overlay_entry_def oversize_bytes_def host_word_def
      be_word_def bytes_at_def sizeof_XDBF_Entry_def upt_conv_Cons oversize_xdbf_def
      cpu_to_be32_def bswap32_def be_u32_def cpu_to_be16_def bswap16_def cpu_to_be64_def
      bswap64_def)

lemma oversize_indexes:
  "initStrTblIndexes_loop xdbf_structs_h True (entryTable oversize_xdbf) 0 0 (replicate 13 (- 1))
   = (strTblIndexes oversize_xdbf, 1)"
  by (simp add: replicate_13 oversize_xdbf_def xdbf_structs_h_def cpu_to_be16_def bswap16_def
      be64_to_cpu_def cpu_to_be64_def bswap64_def)

lemma oversize_xdbf_constructed:
  "Xbox360_XDBF xdbf_structs_h True (Some oversize_file) uninit
   = (oversize_xdbf, [XRewind, XRead 24, XAlloc 36, XRead 36])"
proof -
  have sup: "0 \<le> xdbf_isRomSupported_static xdbf_structs_h True
      \<lparr>header_addr = 0, header_size = 24,
       header_pData = take 24 oversize_bytes, ext = None, szFile = 0\<rparr>"
    by (simp add: xdbf_isRomSupported_static_def oversize_header_overlay sizeof_XDBF_Header_def
        sizeof_XDBF_Entry_def xdbf_structs_h_def)
  have sw: "be32_to_cpu True (cpu_to_be32 True 2) = (2 :: u32)"
    "be32_to_cpu True (cpu_to_be32 True 0) = (0 :: u32)"
    "be32_to_cpu True (cpu_to_be32 True 0x00010000) = (0x00010000 :: u32)"
    by (simp_all add: cpu_to_be32_def be32_to_cpu_def bswap32_def be_u32_def)
  have ne: "entryTable oversize_xdbf \<noteq> []"
    by (simp add: oversize_xdbf_def)
  have mx: "nat (XDBF_LANGUAGE_MAX xdbf_structs_h) = 13"
    by (simp add: xdbf_structs_h_def)
  show ?thesis
    using sup
    by (simp add: Xbox360_XDBF_def Xbox360_XDBF_Private_def xdbf_init_def Let_def
        oversize_read oversize_header_overlay oversize_entries_overlay sw sizeof_XDBF_Header_def
        sizeof_XDBF_Entry_def sizeof_XDBF_Free_Space_Entry_def initStrTblIndexes_def ne mx
        oversize_indexes zero_header_def)
       (simp add: oversize_xdbf_def)
qed

text \<open>
  The rows of the achievements list on the example container: German has no rows, and
  the cell of the Japanese row for a string that only the English table holds is the
  English string.
\<close>

lemma spa_english_table_after:
  "loadStringTable xdbf_structs_h True
     ((spa_xdbf dl)\<lparr>strTbls := (strTbls (spa_xdbf dl))[2 := Some jp_table]\<rparr>) 1
   = (Inr en_table,
      (spa_xdbf dl)\<lparr>strTbls := (strTbls (spa_xdbf dl))[2 := Some jp_table, 1 := Some en_table]\<rparr>,
      [XAlloc 20, XSeekAndRead 97 20])"
  by (simp add: loadStringTable_def spa_xdbf_def xdbf_structs_h_def XDBF_LANGUAGE_UNKNOWN_def
      sizeof_XDBF_XSTR_Header_def Let_def cpu_to_be32_def be32_to_cpu_def bswap32_def be_u32_def
      seekAndRead_def file_read_def spa_file_def mem_file_def spa_bytes_def host_word_def
      be_word_def bytes_at_def en_table_def replicate_13)

lemma loadString_state:
  assumes "loadStringTable k le d l = (r, d', ev)" and "strTbls d ! nat l = None"
    and "lang_in_range k l"
  shows "snd (loadString k le env d l string_id) = d'"
  using assms
  by (simp add: loadString_def lang_in_range_def XDBF_LANGUAGE_UNKNOWN_def Let_def
      split: sum.splits scan_out.splits)

lemma spa_row_string:
  "\<not> has_rows (spa_xdbf 2) 3"
  "fst (row_string xdbf_structs_h True german_system (spa_xdbf 2) 2 0x8000) = Some [0x48, 0x69]"
proof -
  show "\<not> has_rows (spa_xdbf 2) 3"
    by (simp add: has_rows_def spa_xdbf_def)
  have r: "lang_in_range xdbf_structs_h 2"
    by (simp add: lang_in_range_def spa_consts XDBF_LANGUAGE_UNKNOWN_def)
  have n: "strTbls (spa_xdbf 2) ! nat 2 = None"
    by (simp add: spa_consts)
  have jp: "loadString xdbf_structs_h True german_system (spa_xdbf 2) 2 0x8000
        = (Some [], (spa_xdbf 2)\<lparr>strTbls := (strTbls (spa_xdbf 2))[2 := Some jp_table]\<rparr>)"
    using loadString_table [OF spa_japanese_table, where env = german_system
          and string_id = "0x8000" and dl1 = 2]
      loadString_state [OF spa_japanese_table n r, of german_system "0x8000"]
    by (simp add: spa_title_strings prod_eq_iff)
  have en: "fst (loadString xdbf_structs_h True german_system
        ((spa_xdbf 2)\<lparr>strTbls := (strTbls (spa_xdbf 2))[2 := Some jp_table]\<rparr>) 1 0x8000)
        = Some [0x48, 0x69]"
    using loadString_table [OF spa_english_table_after] by (simp add: spa_title_strings)
  show "fst (row_string xdbf_structs_h True german_system (spa_xdbf 2) 2 0x8000)
        = Some [0x48, 0x69]"
    using en by (simp add: row_string_def jp XDBF_LANGUAGE_ENGLISH_def)
qed

end
